theory Spec2Isabelle
  imports Complex_Main
begin

section \<open>DICe Schema: point partitioning and the per-point correlation pipeline\<close>

text \<open>
  A shallow embedding of \<^verbatim>\<open>src/core/DICe_Schema.cpp\<close>: the two partitioners
  (\<^verbatim>\<open>create_obstruction_dist_map\<close>, \<^verbatim>\<open>create_seed_dist_map\<close>), the whitelist check of
  \<^verbatim>\<open>set_params\<close>, and the per-point routine \<^verbatim>\<open>generic_correlation_routine\<close> with
  \<^verbatim>\<open>record_failed_step\<close> and \<^verbatim>\<open>record_step\<close>.

  Subset ids (\<^verbatim>\<open>int_t\<close>) are modelled as \<open>int\<close>; no arithmetic on ids is done beyond
  comparison and counting, so wrap-around plays no role.
\<close>

subsection \<open>Ordered sets of ids (\<^verbatim>\<open>std::set<int_t>\<close>)\<close>

text \<open>
  A \<^verbatim>\<open>std::set<int_t>\<close> is a strictly ascending list: iteration runs from the smallest
  element upwards, \<^verbatim>\<open>insert\<close> ignores an element that is already present, \<^verbatim>\<open>erase\<close>
  ignores one that is absent.
\<close>

fun set_insert :: "int \<Rightarrow> int list \<Rightarrow> int list" where
  "set_insert x [] = [x]"
| "set_insert x (y # ys) =
     (if x < y then x # y # ys else if x = y then y # ys else y # set_insert x ys)"

definition set_erase :: "int \<Rightarrow> int list \<Rightarrow> int list" where
  "set_erase x xs = filter (\<lambda>y. y \<noteq> x) xs"

definition insert_all :: "int list \<Rightarrow> int list \<Rightarrow> int list" where
  "insert_all xs s = fold set_insert xs s"

definition erase_all :: "int list \<Rightarrow> int list \<Rightarrow> int list" where
  "erase_all xs s = fold set_erase xs s"

subsection \<open>The Dependency Partitioner: \<^verbatim>\<open>Schema::create_obstruction_dist_map\<close>\<close>

text \<open>
  \<^verbatim>\<open>obstructing_subset_ids_\<close> is a \<^verbatim>\<open>std::map<int_t,std::vector<int_t>>\<close>: an association
  list in ascending key order, which is the order both loops over the map follow.
\<close>

type_synonym obstruction_map = "(int \<times> int list) list"

text \<open>
  The variables of the grouping loops (lines 621--670). \<open>dep_it\<close> is the element the
  iterator of the same name points at. The map \<^verbatim>\<open>earliest_id_can_appear\<close> is left out:
  it is only read by an assertion (line 730).
\<close>

record grouping =
  eligible_ids :: "int list"
  obstruction_groups :: "int list list"
  assigned_to_a_group :: "int list"
  dependencies :: "int list"
  dep_it :: int

text \<open>
  Body of the innermost loop over \<^verbatim>\<open>search_it\<close> (lines 647--667). On a match the whole
  entry is added to \<^verbatim>\<open>dependencies\<close>, \<open>dep_it\<close> is reset to \<^verbatim>\<open>dependencies.begin()\<close>, and
  the scan goes on with the next entry.
\<close>

definition search_step :: "int \<times> int list \<Rightarrow> grouping \<Rightarrow> grouping" where
  "search_step e g =
     (case e of (key, blockers) \<Rightarrow>
        if key \<in> set (assigned_to_a_group g) then g
        else if dep_it g = key \<or> dep_it g \<in> set blockers then
          (let deps = insert_all blockers (set_insert key (dependencies g)) in
             g\<lparr>dependencies := deps,
               eligible_ids := erase_all blockers (set_erase key (eligible_ids g)),
               dep_it := hd deps,
               assigned_to_a_group := set_insert key (assigned_to_a_group g)\<rparr>)
        else g)"

definition unassigned :: "obstruction_map \<Rightarrow> grouping \<Rightarrow> nat" where
  "unassigned obst g = length (filter (\<lambda>e. fst e \<notin> set (assigned_to_a_group g)) obst)"

definition later_deps :: "grouping \<Rightarrow> nat" where
  "later_deps g = length (filter (\<lambda>x. dep_it g < x) (dependencies g))"

lemma set_set_insert [simp]: "set (set_insert x xs) = insert x (set xs)"
  by (induction xs) auto

lemma search_step_unassigned_le: "unassigned obst (search_step e g) \<le> unassigned obst g"
proof -
  have "length (filter (\<lambda>e. fst e \<notin> insert k A) obst) \<le> length (filter (\<lambda>e. fst e \<notin> A) obst)"
    for k :: int and A
    by (induction obst) auto
  then show ?thesis
    by (auto simp: search_step_def unassigned_def Let_def split: prod.splits)
qed

lemma search_step_unassigned_less:
  assumes "e \<in> set obst" and "search_step e g \<noteq> g"
  shows "unassigned obst (search_step e g) < unassigned obst g"
proof -
  obtain key blockers where e: "e = (key, blockers)" by (cases e)
  from assms(2) e have fresh: "key \<notin> set (assigned_to_a_group g)"
    by (auto simp: search_step_def split: if_splits)
  from assms(2) e fresh
  have asg: "set (assigned_to_a_group (search_step e g)) = insert key (set (assigned_to_a_group g))"
    by (auto simp: search_step_def Let_def split: if_splits)
  have "filter (\<lambda>e. fst e \<notin> insert key A) obst = filter (\<lambda>e. fst e \<noteq> key) (filter (\<lambda>e. fst e \<notin> A) obst)"
    for A
    by (induction obst) auto
  moreover have "e \<in> set (filter (\<lambda>e. fst e \<notin> set (assigned_to_a_group g)) obst)"
    using assms(1) e fresh by simp
  then have "length (filter (\<lambda>e. fst e \<noteq> key) (filter (\<lambda>e. fst e \<notin> set (assigned_to_a_group g)) obst))
      < length (filter (\<lambda>e. fst e \<notin> set (assigned_to_a_group g)) obst)"
    by (rule length_filter_less) (simp add: e)
  ultimately show ?thesis
    by (simp add: unassigned_def asg)
qed

lemma search_loop_unassigned:
  "set es \<subseteq> set obst \<Longrightarrow>
     unassigned obst (fold search_step es g) \<le> unassigned obst g \<and>
     (unassigned obst (fold search_step es g) = unassigned obst g \<longrightarrow> fold search_step es g = g)"
proof (induction es arbitrary: g)
  case Nil
  then show ?case by simp
next
  case (Cons e es)
  then have e: "e \<in> set obst" and es: "set es \<subseteq> set obst" by auto
  note ih = Cons.IH [OF es, of "search_step e g"]
  show ?case
  proof (cases "search_step e g = g")
    case True
    with ih show ?thesis by simp
  next
    case False
    from search_step_unassigned_less [OF e False] ih show ?thesis by auto
  qed
qed

text \<open>
  The loop over \<^verbatim>\<open>dep_it\<close> (lines 644--668): one full pass over the map for the element
  under the iterator, then \<^verbatim>\<open>++dep_it\<close>, which moves to the next greater element of the
  set as it is then, until the end of the set. The set is not empty when the loop is
  entered (it holds the key of the outer entry), so the body runs before the first test.
\<close>

function dep_loop :: "obstruction_map \<Rightarrow> grouping \<Rightarrow> grouping" where
  "dep_loop obst g =
     (let g' = fold search_step obst g in
        case find (\<lambda>x. dep_it g' < x) (dependencies g') of
          None \<Rightarrow> g'
        | Some d \<Rightarrow> dep_loop obst (g'\<lparr>dep_it := d\<rparr>))"
  by pat_completeness auto

termination
proof (relation "measures [\<lambda>(obst, g). unassigned obst g, \<lambda>(obst, g). later_deps g]", goal_cases)
  case 1
  show ?case by simp
next
  case (2 obst g g' d)
  have le: "unassigned obst g' \<le> unassigned obst g"
    and eq: "unassigned obst g' = unassigned obst g \<longrightarrow> g' = g"
    using search_loop_unassigned [of obst obst g] 2(1) by auto
  from 2(2) have d: "d \<in> set (dependencies g')" "dep_it g' < d"
    by (auto simp: find_Some_iff)
  have un: "unassigned obst (g'\<lparr>dep_it := d\<rparr>) = unassigned obst g'"
    by (simp add: unassigned_def)
  have "filter (\<lambda>x. d < x) (dependencies g')
      = filter (\<lambda>x. d < x) (filter (\<lambda>x. dep_it g' < x) (dependencies g'))"
    using d(2) by (auto intro: filter_cong)
  moreover have "length (filter (\<lambda>x. d < x) (filter (\<lambda>x. dep_it g' < x) (dependencies g')))
      < length (filter (\<lambda>x. dep_it g' < x) (dependencies g'))"
    by (rule length_filter_less [of d]) (use d in auto)
  ultimately have ld: "later_deps (g'\<lparr>dep_it := d\<rparr>) < later_deps g'"
    by (simp add: later_deps_def)
  show ?case
  proof (cases "unassigned obst g' = unassigned obst g")
    case True
    with eq ld un show ?thesis by simp
  next
    case False
    with le un show ?thesis by simp
  qed
qed

declare dep_loop.simps [simp del]

text \<open>Body of the outer loop over \<^verbatim>\<open>map_it\<close> (lines 628--670).\<close>

definition group_step :: "obstruction_map \<Rightarrow> int \<times> int list \<Rightarrow> grouping \<Rightarrow> grouping" where
  "group_step obst e g =
     (case e of (key, blockers) \<Rightarrow>
        if key \<in> set (assigned_to_a_group g) then g
        else
          (let deps = insert_all blockers (set_insert key []);
               g' = dep_loop obst
                      (g\<lparr>dependencies := deps,
                         eligible_ids := erase_all blockers (set_erase key (eligible_ids g)),
                         dep_it := hd deps\<rparr>)
           in g'\<lparr>obstruction_groups := obstruction_groups g' @ [dependencies g']\<rparr>))"

definition build_groups :: "int \<Rightarrow> obstruction_map \<Rightarrow> grouping" where
  "build_groups data_num_points obst =
     fold (group_step obst) obst
       \<lparr>eligible_ids = [0..data_num_points - 1], obstruction_groups = [],
        assigned_to_a_group = [], dependencies = [], dep_it = 0\<rparr>"

subsection \<open>Round-robin distribution of groups over the processes\<close>

text \<open>
  Both partitioners hand their groups out with the same pair of loops (lines 689--699 and
  802--815):
  \<^verbatim>\<open>while(gid < groups.size()){ for(p_id=0;p_id<num_procs;++p_id){ if(gid < groups.size()){ ...; gid++; } else break; } }\<close>
  \<open>rr_pass\<close> is one run of the inner \<^verbatim>\<open>for\<close> loop over the process ids, \<open>act p_id grp\<close>
  is what is done with a group on process \<open>p_id\<close>. The \<^verbatim>\<open>while\<close> loop does not end when
  \<^verbatim>\<open>num_procs\<close> is 0 and groups are left, so it is a partial function: \<open>None\<close> stands for
  not returning.
\<close>

fun rr_pass :: "(nat \<Rightarrow> 'g \<Rightarrow> 's \<Rightarrow> 's) \<Rightarrow> nat list \<Rightarrow> 'g list \<Rightarrow> 's \<Rightarrow> 'g list \<times> 's" where
  "rr_pass act [] gs s = (gs, s)"
| "rr_pass act (p_id # ps) [] s = ([], s)"
| "rr_pass act (p_id # ps) (g # gs) s = rr_pass act ps gs (act p_id g s)"

partial_function (option) round_robin ::
  "(nat \<Rightarrow> 'g \<Rightarrow> 's \<Rightarrow> 's) \<Rightarrow> nat \<Rightarrow> 'g list \<Rightarrow> 's \<Rightarrow> 's option" where
  "round_robin act num_procs gs s =
     (if gs = [] then Some s
      else case rr_pass act [0..<num_procs] gs s of (gs', s') \<Rightarrow> round_robin act num_procs gs' s')"

declare round_robin.simps [code]

text \<open>\<^verbatim>\<open>local_subset_ids[p_id].insert(group.begin(), group.end())\<close> (line 693).\<close>

definition add_group :: "nat \<Rightarrow> int list \<Rightarrow> int list list \<Rightarrow> int list list" where
  "add_group p_id grp local_subset_ids =
     local_subset_ids[p_id := insert_all grp (local_subset_ids ! p_id)]"

text \<open>
  Lines 701--711: each remaining eligible id goes to the process found by the scan with
  \<^verbatim>\<open><=\<close>, which starts from \<^verbatim>\<open>lowest_num_subsets = data_num_points_\<close> and process 0.
\<close>

definition proc_with_fewest_subsets :: "int \<Rightarrow> nat \<Rightarrow> int list list \<Rightarrow> nat" where
  "proc_with_fewest_subsets data_num_points num_procs local_subset_ids =
     fst (fold (\<lambda>i (p, lowest_num_subsets).
                  if int (length (local_subset_ids ! i)) \<le> lowest_num_subsets
                  then (i, int (length (local_subset_ids ! i)))
                  else (p, lowest_num_subsets))
            [0..<num_procs] (0, data_num_points))"

definition assign_eligible :: "int \<Rightarrow> nat \<Rightarrow> int list \<Rightarrow> int list list \<Rightarrow> int list list" where
  "assign_eligible data_num_points num_procs eligible local_subset_ids =
     fold (\<lambda>elig ls.
             (let p = proc_with_fewest_subsets data_num_points num_procs ls
              in ls[p := set_insert elig (ls ! p)]))
       eligible local_subset_ids"

text \<open>
  Lines 713--734: the two passes over the local set. \<^verbatim>\<open>obstructing_subset_ids_->find\<close> is
  \<open>map_of\<close>.
\<close>

definition no_blockers :: "obstruction_map \<Rightarrow> int \<Rightarrow> bool" where
  "no_blockers obst x = (case map_of obst x of None \<Rightarrow> True | Some bl \<Rightarrow> length bl = 0)"

definition has_blockers :: "obstruction_map \<Rightarrow> int \<Rightarrow> bool" where
  "has_blockers obst x = (case map_of obst x of None \<Rightarrow> False | Some bl \<Rightarrow> length bl > 0)"

definition order_local_ids :: "obstruction_map \<Rightarrow> int list \<Rightarrow> int list" where
  "order_local_ids obst local_set =
     filter (no_blockers obst) local_set @ filter (has_blockers obst) local_set"

text \<open>
  The sets \<^verbatim>\<open>local_subset_ids\<close> of all processes after line 711. Every process computes
  all of them, and then orders its own.
\<close>

definition local_subset_ids :: "int \<Rightarrow> nat \<Rightarrow> obstruction_map \<Rightarrow> int list list option" where
  "local_subset_ids data_num_points num_procs obst =
     (let g = build_groups data_num_points obst in
        case round_robin add_group num_procs (obstruction_groups g) (replicate num_procs []) of
          None \<Rightarrow> None
        | Some ls \<Rightarrow> Some (assign_eligible data_num_points num_procs (eligible_ids g) ls))"

text \<open>
  The list \<^verbatim>\<open>local_ids\<close> of process \<open>proc_id\<close> (line 744). A communicator has
  \<^verbatim>\<open>0 <= get_rank() < get_size()\<close>; the source indexes \<^verbatim>\<open>local_subset_ids[proc_id]\<close>
  unchecked, and the model gives \<open>None\<close> outside that range.
\<close>

definition obstruction_local_ids :: "int \<Rightarrow> nat \<Rightarrow> nat \<Rightarrow> obstruction_map \<Rightarrow> int list option" where
  "obstruction_local_ids data_num_points num_procs proc_id obst =
     (if proc_id < num_procs then
        (case local_subset_ids data_num_points num_procs obst of
           None \<Rightarrow> None
         | Some ls \<Rightarrow> Some (order_local_ids obst (ls ! proc_id)))
      else None)"

subsection \<open>The Seed Partitioner: \<^verbatim>\<open>Schema::create_seed_dist_map\<close>\<close>

text \<open>
  Lines 790--797: the scan from \<^verbatim>\<open>data_num_points_-1\<close> down to 0. The state is
  (\<^verbatim>\<open>this_group_gids\<close>, \<^verbatim>\<open>seed_groupings\<close>). The source asserts that the array has
  \<^verbatim>\<open>data_num_points_\<close> entries.
\<close>

definition seed_step :: "int list \<Rightarrow> nat \<Rightarrow> int list \<times> int list list \<Rightarrow> int list \<times> int list list" where
  "seed_step neighbor_ids i st =
     (case st of (this_group_gids, seed_groupings) \<Rightarrow>
        (let this_group_gids' = this_group_gids @ [int i] in
           if neighbor_ids ! i = - 1 then ([], seed_groupings @ [this_group_gids'])
           else (this_group_gids', seed_groupings)))"

definition seed_scan :: "int list \<Rightarrow> int list \<times> int list list" where
  "seed_scan neighbor_ids = fold (seed_step neighbor_ids) (rev [0..<length neighbor_ids]) ([], [])"

text \<open>Lines 806--810: a group is reversed and kept when it falls to this process.\<close>

definition keep_group :: "nat \<Rightarrow> nat \<Rightarrow> int list \<Rightarrow> int list list \<Rightarrow> int list list" where
  "keep_group proc p_id grp local_seed_groupings =
     (if p_id = proc then local_seed_groupings @ [rev grp] else local_seed_groupings)"

definition local_seed_groupings :: "nat \<Rightarrow> nat \<Rightarrow> int list \<Rightarrow> int list list option" where
  "local_seed_groupings num_procs proc neighbor_ids =
     round_robin (keep_group proc) num_procs (snd (seed_scan neighbor_ids)) []"

subsection \<open>The distribution maps of the schema\<close>

text \<open>
  \<^verbatim>\<open>MultiField_Map\<close> is declared outside this file. A map is represented by the arguments
  of the constructor call that built it on this process: \<^verbatim>\<open>MultiField_Map(n,0,comm)\<close> is
  the evenly distributed map, \<^verbatim>\<open>MultiField_Map(n,ids,0,comm)\<close> the map with the given list
  of local ids.
\<close>

datatype MultiField_Map = Even_Map int | List_Map int "int list"

record Schema_Maps =
  data_num_points :: int
  proc_id :: nat
  num_procs :: nat
  obstructing_subset_ids :: "obstruction_map option"
  dist_map :: MultiField_Map
  all_map :: MultiField_Map
  seed_dist_map :: "MultiField_Map option"

text \<open>
  \<^verbatim>\<open>create_obstruction_dist_map\<close> (lines 610--753). \<open>None\<close>: the call does not return.
\<close>

definition create_obstruction_dist_map :: "Schema_Maps \<Rightarrow> Schema_Maps option" where
  "create_obstruction_dist_map s =
     (case obstructing_subset_ids s of
        None \<Rightarrow> Some s
      | Some obst \<Rightarrow>
          (case obstruction_local_ids (data_num_points s) (num_procs s) (proc_id s) obst of
             None \<Rightarrow> None
           | Some local_ids \<Rightarrow>
               Some (s\<lparr>dist_map := List_Map (data_num_points s) local_ids,
                       all_map := (if num_procs s = 1
                                   then List_Map (data_num_points s) local_ids
                                   else all_map s)\<rparr>)))"

text \<open>
  \<^verbatim>\<open>create_seed_dist_map\<close> (lines 756--836). The warning printed at lines 771--780 has no
  effect on the maps.
\<close>

definition create_seed_dist_map :: "int list option \<Rightarrow> Schema_Maps \<Rightarrow> Schema_Maps option" where
  "create_seed_dist_map neighbor_ids s =
     (case neighbor_ids of
        None \<Rightarrow> Some (s\<lparr>seed_dist_map := Some (dist_map s)\<rparr>)
      | Some nbs \<Rightarrow>
          (if (case obstructing_subset_ids s of None \<Rightarrow> False | Some obst \<Rightarrow> length obst > 0)
           then Some (s\<lparr>seed_dist_map := Some (dist_map s)\<rparr>)
           else
             (case local_seed_groupings (num_procs s) (proc_id s) nbs of
                None \<Rightarrow> None
              | Some groupings \<Rightarrow>
                  Some (s\<lparr>seed_dist_map := Some (List_Map (data_num_points s) (concat groupings))\<rparr>))))"

text \<open>
  The part of \<^verbatim>\<open>Schema::initialize\<close> that builds the maps (lines 540--555): the default
  maps, then the two partitioners in this order.
\<close>

definition initialize_maps ::
  "int \<Rightarrow> nat \<Rightarrow> nat \<Rightarrow> obstruction_map option \<Rightarrow> int list option \<Rightarrow> Schema_Maps option" where
  "initialize_maps num_pts rank nprocs obst neighbor_ids =
     (case create_obstruction_dist_map
             \<lparr>data_num_points = num_pts, proc_id = rank, num_procs = nprocs,
              obstructing_subset_ids = obst, dist_map = Even_Map num_pts,
              all_map = List_Map (- 1) [0..num_pts - 1], seed_dist_map = None\<rparr> of
        None \<Rightarrow> None
      | Some s \<Rightarrow> create_seed_dist_map neighbor_ids s)"

text \<open>
  The invariant of the scan when the ids \<open>n, \<dots>, length nbs - 1\<close> have been visited: the
  closed groups are descending runs that end at a seed and hold no other seed, the open
  group is a descending run without a seed, and together they hold the visited ids.
\<close>

definition seed_run :: "int list \<Rightarrow> nat \<Rightarrow> nat \<Rightarrow> bool" where
  "seed_run nbs a b \<longleftrightarrow> (\<forall>j. a \<le> j \<and> j < b \<longrightarrow> nbs ! j \<noteq> - 1)"

definition seed_inv :: "int list \<Rightarrow> nat \<Rightarrow> int list \<times> int list list \<Rightarrow> bool" where
  "seed_inv nbs n st \<longleftrightarrow>
     (case st of (tg, sg) \<Rightarrow>
        (\<forall>g \<in> set sg. \<exists>a b. n \<le> a \<and> a < b \<and> b \<le> length nbs \<and> g = map int (rev [a..<b]) \<and>
                           nbs ! a = - 1 \<and> seed_run nbs (Suc a) b) \<and>
        (\<exists>m. n \<le> m \<and> m \<le> length nbs \<and> tg = map int (rev [n..<m]) \<and> seed_run nbs n m \<and>
             (m = length nbs \<or> nbs ! m = - 1)) \<and>
        \<Union> (set ` set sg) \<union> set tg = int ` {n..<length nbs})"

subsection \<open>The whitelist check of \<^verbatim>\<open>Schema::set_params\<close>\<close>

text \<open>
  A \<^verbatim>\<open>Teuchos::ParameterList\<close> is a list of named entries. Only the names and the
  \<^verbatim>\<open>bool\<close> entries are read by the part of \<^verbatim>\<open>set_params\<close> modelled here (lines 247--316).
  \<^verbatim>\<open>get<bool>(name, def)\<close> is the accessor of the Teuchos library: it returns the value
  of the entry, enters \<open>def\<close> under \<open>name\<close> when the list has no such entry, and throws
  when the entry holds a value of another type. \<^verbatim>\<open>setEntry\<close> replaces or adds an entry.
\<close>

datatype param_value = Bool_value bool | Other_value

type_synonym ParameterList = "(string \<times> param_value) list"

datatype setup_error = Global_DIC_not_enabled | Invalid_parameter | Invalid_parameter_type

datatype Analysis_Type = LOCAL_DIC | GLOBAL_DIC

definition get_bool :: "string \<Rightarrow> bool \<Rightarrow> ParameterList \<Rightarrow> setup_error + bool \<times> ParameterList" where
  "get_bool name def pl =
     (case map_of pl name of
        None \<Rightarrow> Inr (def, pl @ [(name, Bool_value def)])
      | Some (Bool_value b) \<Rightarrow> Inr (b, pl)
      | Some Other_value \<Rightarrow> Inl Invalid_parameter_type)"

definition setEntry :: "string \<Rightarrow> param_value \<Rightarrow> ParameterList \<Rightarrow> ParameterList" where
  "setEntry name v pl =
     (if name \<in> fst ` set pl then map (\<lambda>(n, w). if n = name then (n, v) else (n, w)) pl
      else pl @ [(name, v)])"

text \<open>
  The declarations of \<^verbatim>\<open>DICe.h\<close> that \<^verbatim>\<open>set_params\<close> uses are not part of this file and
  are parameters of the model: the two option names, the names in the tables
  \<^verbatim>\<open>valid_correlation_params\<close> and \<^verbatim>\<open>valid_post_processor_params\<close>, and the default
  lists that \<^verbatim>\<open>tracking_default_params\<close> (\<open>True\<close>) and \<^verbatim>\<open>dice_default_params\<close> (\<open>False\<close>)
  fill in.
\<close>

record DICe_decls =
  use_global_dic :: string
  use_tracking_default_params :: string
  valid_correlation_params :: "string list"
  valid_post_processor_params :: "string list"
  default_params :: "bool \<Rightarrow> ParameterList"

text \<open>Body of the loop over the entries of \<^verbatim>\<open>params\<close> (lines 282--301).\<close>

definition check_entry ::
  "DICe_decls \<Rightarrow> string \<times> param_value \<Rightarrow> bool \<times> ParameterList \<Rightarrow> bool \<times> ParameterList" where
  "check_entry D e st =
     (case e of (name, v) \<Rightarrow> case st of (allParamsValid, diceParams) \<Rightarrow>
        (let paramValid = (name \<in> set (valid_correlation_params D) \<or>
                           name \<in> set (valid_post_processor_params D))
         in if paramValid then (allParamsValid, setEntry name v diceParams)
            else (False, diceParams)))"

text \<open>
  Lines 247--316, up to the exception test of line 311. The result is the new
  \<^verbatim>\<open>analysis_type_\<close> and the list \<^verbatim>\<open>diceParams\<close> from which the rest of the function reads
  the members of the schema. The last \<^verbatim>\<open>else\<close> (line 314) is for values of
  \<^verbatim>\<open>analysis_type_\<close> other than the two this file assigns.
\<close>

definition set_params ::
  "DICe_decls \<Rightarrow> Analysis_Type \<Rightarrow> ParameterList option \<Rightarrow> setup_error + Analysis_Type \<times> ParameterList" where
  "set_params D analysis_type params =
     (case (case params of
              None \<Rightarrow> Inr (analysis_type, None)
            | Some ps \<Rightarrow>
                (case get_bool (use_global_dic D) False ps of
                   Inl err \<Rightarrow> Inl err
                 | Inr (g, ps') \<Rightarrow> Inr (if g then GLOBAL_DIC else analysis_type, Some ps'))) of
        Inl err \<Rightarrow> Inl err
      | Inr (analysis_type', params') \<Rightarrow>
          (if analysis_type' = GLOBAL_DIC then Inl Global_DIC_not_enabled
           else
             (case params' of
                None \<Rightarrow> Inr (analysis_type', default_params D False)
              | Some ps \<Rightarrow>
                  (case get_bool (use_tracking_default_params D) False ps of
                     Inl err \<Rightarrow> Inl err
                   | Inr (use_tracking_defaults, ps') \<Rightarrow>
                       (case fold (check_entry D) ps' (True, default_params D use_tracking_defaults) of
                          (allParamsValid, diceParams) \<Rightarrow>
                            if \<not> allParamsValid then Inl Invalid_parameter
                            else Inr (analysis_type', diceParams))))))"

section \<open>The per-point correlation routine\<close>

subsection \<open>Fields, status flags and the state of the schema\<close>

text \<open>
  The enumerations of \<^verbatim>\<open>DICe.h\<close> are given with the values this file names.
  \<^verbatim>\<open>Status_Flag\<close> has further values, which the objective may return; \<open>OTHER_STATUS k\<close>
  stands for them. The numeric value of a flag, \<^verbatim>\<open>static_cast<int_t>(flag)\<close>, is fixed by
  the header and is a parameter \<open>sc\<close> of the functions that store a flag in a field.
  The field \<^verbatim>\<open>SIGMA\<close> is written \<open>SIGMA_FIELD\<close>, since \<open>SIGMA\<close> is reserved syntax.
  Field values (\<^verbatim>\<open>scalar_t\<close>) are modelled as real numbers: they are stored, compared
  with thresholds and, in one place, added; rounding and NaN are not modelled.
\<close>

datatype Field_Name =
  COORDINATE_X | COORDINATE_Y | DISPLACEMENT_X | DISPLACEMENT_Y | ROTATION_Z
| NORMAL_STRAIN_X | NORMAL_STRAIN_Y | SHEAR_STRAIN_XY
| SIGMA_FIELD | GAMMA | MATCH | STATUS_FLAG | ITERATIONS | NEIGHBOR_ID

datatype Status_Flag =
  CORRELATION_SUCCESSFUL | CORRELATION_FAILED | CORRELATION_FAILED_BY_EXCEPTION
| INITIALIZE_SUCCESSFUL | INITIALIZE_FAILED | INITIALIZE_FAILED_BY_EXCEPTION
| FRAME_SKIPPED | FRAME_SKIPPED_DUE_TO_NO_MOTION
| FRAME_FAILED_DUE_TO_HIGH_GAMMA | FRAME_FAILED_DUE_TO_HIGH_PATH_DISTANCE
| OTHER_STATUS nat

datatype Initialization_Method =
  USE_FIELD_VALUES | USE_NEIGHBOR_VALUES | USE_NEIGHBOR_VALUES_FIRST_STEP_ONLY
| USE_PHASE_CORRELATION

datatype Optimization_Method =
  SIMPLEX | GRADIENT_BASED | SIMPLEX_THEN_GRADIENT_BASED | GRADIENT_BASED_THEN_SIMPLEX

datatype Projection_Method = VELOCITY_BASED | OTHER_PROJECTION_METHOD

type_synonym field_store = "int \<Rightarrow> Field_Name \<Rightarrow> real"

text \<open>
  The deformation vector \<^verbatim>\<open>std::vector<scalar_t>(DICE_DEFORMATION_SIZE)\<close> is indexed by
  field names.
\<close>

type_synonym deformation_vector = "Field_Name \<Rightarrow> real"

text \<open>
  Exceptions: \<^verbatim>\<open>std::logic_error\<close> (with the classes derived from it), which the handlers
  of the routine catch, and every other exception, such as the \<^verbatim>\<open>std::runtime_error\<close> of
  \<^verbatim>\<open>TEUCHOS_TEST_FOR_EXCEPTION\<close>.
\<close>

datatype exn = Logic_error | Runtime_error

datatype 'a outcome = Returned 'a | Thrown exn

text \<open>
  A record of the calls made to the collaborators during a pass, as pairs of the place
  of the call in \<^verbatim>\<open>generic_correlation_routine\<close> and its result. The places of the
  optimizer calls tell the attempt (first or retry) and the method. The initial guess
  from the phase correlation, which calls no collaborator, is recorded as well. The
  record is not part of the program; it is what the properties of a pass are stated
  about.
\<close>

datatype call_site =
  At_motion_test | At_new_path_initializer | At_initial_guess | At_skip_sigma | At_skip_gamma
| At_first_fast | At_first_robust | At_retry_initial_guess | At_retry_fast | At_retry_robust
| At_gamma | At_sigma
| At_closest_triad | At_turn_on_pixels

datatype call_result = Normal | Flag bool | Status Status_Flag | Scalar real | Exception exn

text \<open>
  The members of \<^verbatim>\<open>Schema\<close> that the routine reads or writes. \<open>local_field_value\<close> and
  \<open>local_field_value_nm1\<close> are the field stores of the current and of the previous frame.
  Of a \<^verbatim>\<open>Motion_Window_Params\<close> only \<^verbatim>\<open>use_subset_id_\<close> is read here.
  \<open>motion_detectors\<close> and \<open>opt_initializers\<close> tell which entries are not null.
  \<open>world\<close> is the state of everything outside the schema that the collaborators depend
  on and change: the images, the objective and its subset, the motion detectors and the
  path initializers.
\<close>

record 'w Schema =
  local_field_value :: field_store
  local_field_value_nm1 :: field_store
  image_frame :: int
  initialization_method :: Initialization_Method
  optimization_method :: Optimization_Method
  projection_method :: Projection_Method
  initial_gamma_threshold :: real
  final_gamma_threshold :: real
  path_distance_threshold :: real
  phase_cor_u_x :: real
  phase_cor_u_y :: real
  path_file_names :: "int \<rightharpoonup> string"
  skip_solve_flags :: "int \<rightharpoonup> bool"
  motion_window_params :: "int \<rightharpoonup> int"
  motion_detectors :: "int \<Rightarrow> bool"
  opt_initializers :: "int \<Rightarrow> bool"
  use_subset_evolution :: bool
  world :: 'w
  calls :: "(call_site \<times> call_result) list"

text \<open>
  The collaborators of a pass: the objective \<^verbatim>\<open>obj\<close> of the point, the motion detectors
  and the path initializers. Each method takes what the source passes to it (by value or
  by reference), the field store where the objective reads the schema, and the state of
  the world; it gives back its return value or the exception it throws, the arguments
  passed by reference as it leaves them, and the new state of the world.
\<close>

record 'w Collaborators =
  correlation_point_global_id :: int
  detect_motion :: "int \<Rightarrow> 'w \<Rightarrow> bool outcome \<times> 'w"
  new_path_initializer :: "int \<Rightarrow> string \<Rightarrow> 'w \<Rightarrow> unit outcome \<times> 'w"
  path_initial_guess ::
    "int \<Rightarrow> (real \<times> real \<times> real) option \<Rightarrow> deformation_vector \<Rightarrow> 'w
       \<Rightarrow> real outcome \<times> deformation_vector \<times> 'w"
  initialize_from_previous_frame ::
    "field_store \<Rightarrow> deformation_vector \<Rightarrow> 'w \<Rightarrow> Status_Flag outcome \<times> deformation_vector \<times> 'w"
  initialize_from_neighbor ::
    "field_store \<Rightarrow> deformation_vector \<Rightarrow> 'w \<Rightarrow> Status_Flag outcome \<times> deformation_vector \<times> 'w"
  computeUpdateFast ::
    "field_store \<Rightarrow> deformation_vector \<Rightarrow> int \<Rightarrow> 'w
       \<Rightarrow> Status_Flag outcome \<times> deformation_vector \<times> int \<times> 'w"
  computeUpdateRobust ::
    "field_store \<Rightarrow> deformation_vector \<Rightarrow> int \<Rightarrow> 'w
       \<Rightarrow> Status_Flag outcome \<times> deformation_vector \<times> int \<times> 'w"
  obj_sigma :: "field_store \<Rightarrow> deformation_vector \<Rightarrow> 'w \<Rightarrow> real outcome \<times> 'w"
  obj_gamma :: "field_store \<Rightarrow> deformation_vector \<Rightarrow> 'w \<Rightarrow> real outcome \<times> 'w"
  closest_triad :: "int \<Rightarrow> real \<Rightarrow> real \<Rightarrow> real \<Rightarrow> 'w \<Rightarrow> real outcome \<times> 'w"
  turn_on_previously_obstructed_pixels :: "'w \<Rightarrow> unit outcome \<times> 'w"

definition logged :: "call_site \<Rightarrow> call_result \<Rightarrow> 'w \<Rightarrow> 'w Schema \<Rightarrow> 'w Schema" where
  "logged site r w S = S\<lparr>world := w, calls := calls S @ [(site, r)]\<rparr>"

definition set_field :: "int \<Rightarrow> Field_Name \<Rightarrow> real \<Rightarrow> 'w Schema \<Rightarrow> 'w Schema" where
  "set_field gid f v S =
     S\<lparr>local_field_value := (local_field_value S)(gid := (local_field_value S gid)(f := v))\<rparr>"

subsection \<open>\<^verbatim>\<open>Schema::record_failed_step\<close> and \<^verbatim>\<open>Schema::record_step\<close>\<close>

definition record_failed_step :: "int \<Rightarrow> int \<Rightarrow> int \<Rightarrow> 'w Schema \<Rightarrow> 'w Schema" where
  "record_failed_step subset_gid status num_its S =
     set_field subset_gid ITERATIONS (real_of_int num_its)
       (set_field subset_gid STATUS_FLAG (real_of_int status)
         (set_field subset_gid GAMMA (- 1)
           (set_field subset_gid MATCH (- 1)
             (set_field subset_gid SIGMA_FIELD (- 1) S))))"

definition record_step ::
  "int \<Rightarrow> deformation_vector \<Rightarrow> real \<Rightarrow> real \<Rightarrow> real \<Rightarrow> int \<Rightarrow> int \<Rightarrow> 'w Schema \<Rightarrow> 'w Schema" where
  "record_step subset_gid def sig mat gam status num_its S =
     set_field subset_gid ITERATIONS (real_of_int num_its)
       (set_field subset_gid STATUS_FLAG (real_of_int status)
         (set_field subset_gid GAMMA gam
           (set_field subset_gid MATCH mat
             (set_field subset_gid SIGMA_FIELD sig
               (set_field subset_gid ROTATION_Z (def ROTATION_Z)
                 (set_field subset_gid SHEAR_STRAIN_XY (def SHEAR_STRAIN_XY)
                   (set_field subset_gid NORMAL_STRAIN_Y (def NORMAL_STRAIN_Y)
                     (set_field subset_gid NORMAL_STRAIN_X (def NORMAL_STRAIN_X)
                       (set_field subset_gid DISPLACEMENT_Y (def DISPLACEMENT_Y)
                         (set_field subset_gid DISPLACEMENT_X (def DISPLACEMENT_X) S))))))))))"

text \<open>
  Modelled from the spec: \<^verbatim>\<open>save_off_fields\<close> is defined outside this file. The spec has
  the commit step ``snapshot current fields first'' into the previous-frame snapshot of
  the same attributes: the fields of the point are copied to the store of the previous
  frame.
\<close>

definition save_off_fields :: "int \<Rightarrow> 'w Schema \<Rightarrow> 'w Schema" where
  "save_off_fields subset_gid S =
     S\<lparr>local_field_value_nm1 := (local_field_value_nm1 S)(subset_gid := local_field_value S subset_gid)\<rparr>"

subsection \<open>\<^verbatim>\<open>Schema::motion_detected\<close>\<close>

text \<open>
  Lines 1000--1025. Line 1007 reads the window of \<^verbatim>\<open>use_subset_id\<close> without a test; where
  there is none the behaviour of the source is undefined, and the model reports a fault.
  The test of line 1014 cannot fail after the detector has been created.
\<close>

definition motion_detected :: "'w Collaborators \<Rightarrow> int \<Rightarrow> 'w Schema \<Rightarrow> bool outcome \<times> 'w Schema" where
  "motion_detected C subset_gid S =
     (case motion_window_params S subset_gid of
        None \<Rightarrow> (Returned True, S)
      | Some use \<Rightarrow>
          (let use_subset_id = (if use = - 1 then subset_gid else use) in
             if \<not> motion_detectors S use_subset_id \<and> motion_window_params S use_subset_id = None
             then (Thrown Runtime_error, logged At_motion_test (Exception Runtime_error) (world S) S)
             else
               (let S1 = S\<lparr>motion_detectors := (motion_detectors S)(use_subset_id := True)\<rparr> in
                  case detect_motion C use_subset_id (world S1) of
                    (Returned motion_det, w) \<Rightarrow>
                      (Returned motion_det, logged At_motion_test (Flag motion_det) w S1)
                  | (Thrown e, w) \<Rightarrow> (Thrown e, logged At_motion_test (Exception e) w S1))))"

subsection \<open>\<^verbatim>\<open>Schema::generic_correlation_routine\<close>\<close>

text \<open>
  The places where the routine returns: after the motion test, after a skipped solve,
  after one of the calls of \<^verbatim>\<open>record_failed_step\<close>, and at the end.
\<close>

datatype fail_site =
  Init_exception | Init_failure | Init_gamma_gate | Optimizer | Final_gamma_gate
| Path_distance_gate

datatype exit_point = No_motion | Skipped_solve | Failed fail_site | Succeeded

text \<open>The local variables of the routine (lines 1103--1107).\<close>

record Locals =
  init_status :: Status_Flag
  corr_status :: Status_Flag
  num_iterations :: int
  initial_gamma :: real
  deformation :: deformation_vector

text \<open>
  A step of the routine either leaves it (\<open>Inl\<close>: the routine has returned at an exit
  point or an exception has left it) or goes on (\<open>Inr\<close>).
\<close>

definition then_do :: "'r + 'a \<Rightarrow> ('a \<Rightarrow> 'r + 'b) \<Rightarrow> 'r + 'b" where
  "then_do m f = (case m of Inl r \<Rightarrow> Inl r | Inr a \<Rightarrow> f a)"

text \<open>Lines 1069--1077.\<close>

definition motion_gate ::
  "(Status_Flag \<Rightarrow> int) \<Rightarrow> 'w Collaborators \<Rightarrow> int \<Rightarrow> 'w Schema
     \<Rightarrow> (exit_point outcome \<times> 'w Schema) + 'w Schema" where
  "motion_gate sc C subset_gid S =
     (case motion_detected C subset_gid S of
        (Thrown e, S1) \<Rightarrow> Inl (Thrown e, S1)
      | (Returned motion, S1) \<Rightarrow>
          if \<not> motion then
            Inl (Returned No_motion,
                 set_field subset_gid ITERATIONS 0
                   (set_field subset_gid STATUS_FLAG (real_of_int (sc FRAME_SKIPPED_DUE_TO_NO_MOTION))
                     (set_field subset_gid MATCH 0 S1)))
          else Inr S1)"

text \<open>
  Lines 1084--1099: the path initializer of the point is created on first use. The test
  of line 1098 cannot fail after that.
\<close>

definition path_setup ::
  "'w Collaborators \<Rightarrow> int \<Rightarrow> 'w Schema \<Rightarrow> (exit_point outcome \<times> 'w Schema) + 'w Schema" where
  "path_setup C subset_gid S =
     (case path_file_names S subset_gid of
        None \<Rightarrow> Inr S
      | Some path_file_name \<Rightarrow>
          if opt_initializers S subset_gid then Inr S
          else
            (case new_path_initializer C subset_gid path_file_name (world S) of
               (Thrown e, w) \<Rightarrow> Inl (Thrown e, logged At_new_path_initializer (Exception e) w S)
             | (Returned u, w) \<Rightarrow>
                 Inr (logged At_new_path_initializer Normal w
                        (S\<lparr>opt_initializers := (opt_initializers S)(subset_gid := True)\<rparr>))))"

text \<open>
  The choice of lines 1122--1136, which lines 1199--1208 and 1222--1231 repeat for the
  second attempt: the initial guess from the fields of the previous frame, from the
  phase correlation, or from a neighbor. With the phase correlation \<^verbatim>\<open>init_status\<close> is
  \<^verbatim>\<open>INITIALIZE_SUCCESSFUL\<close>: it still has its initial value in the first place and is
  assigned in the other two.
\<close>

definition initialize_by_method ::
  "'w Collaborators \<Rightarrow> int \<Rightarrow> call_site \<Rightarrow> deformation_vector \<Rightarrow> 'w Schema
     \<Rightarrow> Status_Flag outcome \<times> deformation_vector \<times> 'w Schema" where
  "initialize_by_method C subset_gid site def S =
     (if initialization_method S = USE_FIELD_VALUES \<or>
         (initialization_method S = USE_NEIGHBOR_VALUES_FIRST_STEP_ONLY \<and> image_frame S > 0)
      then
        (case initialize_from_previous_frame C (local_field_value S) def (world S) of
           (Returned st, def', w) \<Rightarrow> (Returned st, def', logged site (Status st) w S)
         | (Thrown e, def', w) \<Rightarrow> (Thrown e, def', logged site (Exception e) w S))
      else if initialization_method S = USE_PHASE_CORRELATION
      then
        (Returned INITIALIZE_SUCCESSFUL,
         def(DISPLACEMENT_X := phase_cor_u_x S + local_field_value S subset_gid DISPLACEMENT_X,
             DISPLACEMENT_Y := phase_cor_u_y S + local_field_value S subset_gid DISPLACEMENT_Y,
             ROTATION_Z := local_field_value S subset_gid ROTATION_Z),
         logged site (Status INITIALIZE_SUCCESSFUL) (world S) S)
      else
        (case initialize_from_neighbor C (local_field_value S) def (world S) of
           (Returned st, def', w) \<Rightarrow> (Returned st, def', logged site (Status st) w S)
         | (Thrown e, def', w) \<Rightarrow> (Thrown e, def', logged site (Exception e) w S)))"

text \<open>
  Lines 1085 and 1108--1137: the body of the first \<^verbatim>\<open>try\<close> block. It gives the local
  variables as it leaves them, or the exception thrown in it.
\<close>

definition initial_guess_body ::
  "'w Collaborators \<Rightarrow> int \<Rightarrow> Locals \<Rightarrow> 'w Schema \<Rightarrow> Locals outcome \<times> 'w Schema" where
  "initial_guess_body C subset_gid L S =
     (let global_path_search_required =
            (local_field_value S subset_gid SIGMA_FIELD = - 1 \<or> image_frame S = 0)
      in
        if path_file_names S subset_gid \<noteq> None then
          (case path_initial_guess C subset_gid
                  (if global_path_search_required then None
                   else Some (local_field_value S subset_gid DISPLACEMENT_X,
                              local_field_value S subset_gid DISPLACEMENT_Y,
                              local_field_value S subset_gid ROTATION_Z))
                  (deformation L) (world S) of
             (Returned g, def', w) \<Rightarrow>
               (Returned (L\<lparr>initial_gamma := g, deformation := def'\<rparr>),
                logged At_initial_guess (Scalar g) w S)
           | (Thrown e, def', w) \<Rightarrow> (Thrown e, logged At_initial_guess (Exception e) w S))
        else
          (case initialize_by_method C subset_gid At_initial_guess (deformation L) S of
             (Returned st, def', S') \<Rightarrow> (Returned (L\<lparr>init_status := st, deformation := def'\<rparr>), S')
           | (Thrown e, def', S') \<Rightarrow> (Thrown e, S')))"

text \<open>
  Lines 1103--1141: the local variables, the \<^verbatim>\<open>try\<close> block and its handler. A
  \<^verbatim>\<open>std::logic_error\<close> is caught and recorded; any other exception leaves the routine.
\<close>

definition initial_guess ::
  "(Status_Flag \<Rightarrow> int) \<Rightarrow> 'w Collaborators \<Rightarrow> int \<Rightarrow> 'w Schema
     \<Rightarrow> (exit_point outcome \<times> 'w Schema) + (Locals \<times> 'w Schema)" where
  "initial_guess sc C subset_gid S =
     (let L = \<lparr>init_status = INITIALIZE_SUCCESSFUL, corr_status = CORRELATION_FAILED,
               num_iterations = - 1, initial_gamma = 0, deformation = (\<lambda>f. 0)\<rparr>
      in case initial_guess_body C subset_gid L S of
           (Returned L', S') \<Rightarrow> Inr (L', S')
         | (Thrown Logic_error, S') \<Rightarrow>
             Inl (Returned (Failed Init_exception),
                  record_failed_step subset_gid (sc INITIALIZE_FAILED_BY_EXCEPTION)
                    (num_iterations L) S')
         | (Thrown e, S') \<Rightarrow> Inl (Thrown e, S'))"

text \<open>Lines 1145--1148.\<close>

definition check_initialization ::
  "(Status_Flag \<Rightarrow> int) \<Rightarrow> int \<Rightarrow> Locals \<times> 'w Schema
     \<Rightarrow> (exit_point outcome \<times> 'w Schema) + (Locals \<times> 'w Schema)" where
  "check_initialization sc subset_gid LS =
     (case LS of (L, S) \<Rightarrow>
        if init_status L = INITIALIZE_FAILED
        then Inl (Returned (Failed Init_failure),
                  record_failed_step subset_gid (sc (init_status L)) (num_iterations L) S)
        else Inr (L, S))"

text \<open>Lines 1153--1161: the solve is skipped on request. The two calls are not guarded.\<close>

definition skip_solve ::
  "(Status_Flag \<Rightarrow> int) \<Rightarrow> 'w Collaborators \<Rightarrow> int \<Rightarrow> Locals \<times> 'w Schema
     \<Rightarrow> (exit_point outcome \<times> 'w Schema) + (Locals \<times> 'w Schema)" where
  "skip_solve sc C subset_gid LS =
     (case LS of (L, S) \<Rightarrow>
        if skip_solve_flags S subset_gid = Some True then
          (case obj_sigma C (local_field_value S) (deformation L) (world S) of
             (Thrown e, w) \<Rightarrow> Inl (Thrown e, logged At_skip_sigma (Exception e) w S)
           | (Returned initial_sigma, w) \<Rightarrow>
               (let S1 = logged At_skip_sigma (Scalar initial_sigma) w S in
                  if initial_gamma L = 0 then
                    (case obj_gamma C (local_field_value S1) (deformation L) (world S1) of
                       (Thrown e, w') \<Rightarrow> Inl (Thrown e, logged At_skip_gamma (Exception e) w' S1)
                     | (Returned g, w') \<Rightarrow>
                         Inl (Returned Skipped_solve,
                              record_step subset_gid (deformation L) initial_sigma 0 g
                                (sc FRAME_SKIPPED) (num_iterations L)
                                (logged At_skip_gamma (Scalar g) w' S1)))
                  else
                    Inl (Returned Skipped_solve,
                         record_step subset_gid (deformation L) initial_sigma 0 (initial_gamma L)
                           (sc FRAME_SKIPPED) (num_iterations L) S1)))
        else Inr (L, S))"

text \<open>Lines 1165--1170.\<close>

definition initial_gamma_gate ::
  "(Status_Flag \<Rightarrow> int) \<Rightarrow> int \<Rightarrow> Locals \<times> 'w Schema
     \<Rightarrow> (exit_point outcome \<times> 'w Schema) + (Locals \<times> 'w Schema)" where
  "initial_gamma_gate sc subset_gid LS =
     (case LS of (L, S) \<Rightarrow>
        if initial_gamma_threshold S \<noteq> - 1 \<and> initial_gamma L > initial_gamma_threshold S
        then Inl (Returned (Failed Init_gamma_gate),
                  record_failed_step subset_gid (sc INITIALIZE_FAILED) (num_iterations L) S)
        else Inr (L, S))"

text \<open>
  One optimizer call inside its \<^verbatim>\<open>try\<close> block (lines 1177--1182, 1185--1190, 1209--1214,
  1232--1237): \<open>fast\<close> selects \<^verbatim>\<open>computeUpdateFast\<close>, otherwise \<^verbatim>\<open>computeUpdateRobust\<close>. A
  \<^verbatim>\<open>std::logic_error\<close> becomes \<^verbatim>\<open>CORRELATION_FAILED_BY_EXCEPTION\<close>.
\<close>

definition guarded_update ::
  "'w Collaborators \<Rightarrow> bool \<Rightarrow> call_site \<Rightarrow> Locals \<times> 'w Schema
     \<Rightarrow> (exit_point outcome \<times> 'w Schema) + (Locals \<times> 'w Schema)" where
  "guarded_update C fast site LS =
     (case LS of (L, S) \<Rightarrow>
        (case (if fast then computeUpdateFast C else computeUpdateRobust C)
                (local_field_value S) (deformation L) (num_iterations L) (world S) of
           (Returned st, def', n', w) \<Rightarrow>
             Inr (L\<lparr>corr_status := st, deformation := def', num_iterations := n'\<rparr>,
                  logged site (Status st) w S)
         | (Thrown Logic_error, def', n', w) \<Rightarrow>
             Inr (L\<lparr>corr_status := CORRELATION_FAILED_BY_EXCEPTION, deformation := def',
                    num_iterations := n'\<rparr>,
                  logged site (Exception Logic_error) w S)
         | (Thrown e, def', n', w) \<Rightarrow> Inl (Thrown e, logged site (Exception e) w S)))"

text \<open>Lines 1176--1191: the first attempt.\<close>

definition first_attempt ::
  "'w Collaborators \<Rightarrow> Locals \<times> 'w Schema
     \<Rightarrow> (exit_point outcome \<times> 'w Schema) + (Locals \<times> 'w Schema)" where
  "first_attempt C LS =
     (case LS of (L, S) \<Rightarrow>
        if optimization_method S = GRADIENT_BASED \<or>
           optimization_method S = GRADIENT_BASED_THEN_SIMPLEX
        then guarded_update C True At_first_fast (L, S)
        else if optimization_method S = SIMPLEX \<or>
                optimization_method S = SIMPLEX_THEN_GRADIENT_BASED
        then guarded_update C False At_first_robust (L, S)
        else Inr (L, S))"

text \<open>
  Lines 1198--1218 and 1221--1241: the initial guess is taken again, outside any \<^verbatim>\<open>try\<close>
  block, and the other method is tried once; \<open>fast\<close> tells which one.
\<close>


definition retry_attempt ::
  "(Status_Flag \<Rightarrow> int) \<Rightarrow> 'w Collaborators \<Rightarrow> int \<Rightarrow> bool \<Rightarrow> Locals \<times> 'w Schema
     \<Rightarrow> (exit_point outcome \<times> 'w Schema) + (Locals \<times> 'w Schema)" where
  "retry_attempt sc C subset_gid fast LS =
     (case LS of (L, S) \<Rightarrow>
        (case initialize_by_method C subset_gid At_retry_initial_guess (deformation L) S of
           (Thrown e, def', S1) \<Rightarrow> Inl (Thrown e, S1)
         | (Returned st, def', S1) \<Rightarrow>
             then_do
               (guarded_update C fast (if fast then At_retry_fast else At_retry_robust)
                  (L\<lparr>init_status := st, deformation := def'\<rparr>, S1))
               (\<lambda>(L2, S2).
                  if corr_status L2 \<noteq> CORRELATION_SUCCESSFUL
                  then Inl (Returned (Failed Optimizer),
                            record_failed_step subset_gid (sc (corr_status L2))
                              (num_iterations L2) S2)
                  else Inr (L2, S2))))"

text \<open>
  Lines 1192--1243: a failed first attempt is recorded when the method has one stage, and
  followed by the second attempt when it has two.
\<close>

definition second_attempt ::
  "(Status_Flag \<Rightarrow> int) \<Rightarrow> 'w Collaborators \<Rightarrow> int \<Rightarrow> Locals \<times> 'w Schema
     \<Rightarrow> (exit_point outcome \<times> 'w Schema) + (Locals \<times> 'w Schema)" where
  "second_attempt sc C subset_gid LS =
     (case LS of (L, S) \<Rightarrow>
        if corr_status L \<noteq> CORRELATION_SUCCESSFUL then
          if optimization_method S = SIMPLEX \<or> optimization_method S = GRADIENT_BASED then
            Inl (Returned (Failed Optimizer),
                 record_failed_step subset_gid (sc (corr_status L)) (num_iterations L) S)
          else if optimization_method S = GRADIENT_BASED_THEN_SIMPLEX then
            retry_attempt sc C subset_gid False (L, S)
          else if optimization_method S = SIMPLEX_THEN_GRADIENT_BASED then
            retry_attempt sc C subset_gid True (L, S)
          else Inr (L, S)
        else Inr (L, S))"

text \<open>
  Lines 1247--1248: gamma and sigma of the result. The two calls are not guarded. The
  following steps work on the two values, the local variables and the state.
\<close>

definition final_quality ::
  "'w Collaborators \<Rightarrow> Locals \<times> 'w Schema
     \<Rightarrow> (exit_point outcome \<times> 'w Schema) + (real \<times> real \<times> Locals \<times> 'w Schema)" where
  "final_quality C LS =
     (case LS of (L, S) \<Rightarrow>
        (case obj_gamma C (local_field_value S) (deformation L) (world S) of
           (Thrown e, w) \<Rightarrow> Inl (Thrown e, logged At_gamma (Exception e) w S)
         | (Returned gam, w) \<Rightarrow>
             (let S1 = logged At_gamma (Scalar gam) w S in
                case obj_sigma C (local_field_value S1) (deformation L) (world S1) of
                  (Thrown e, w') \<Rightarrow> Inl (Thrown e, logged At_sigma (Exception e) w' S1)
                | (Returned sig, w') \<Rightarrow> Inr (gam, sig, L, logged At_sigma (Scalar sig) w' S1))))"

text \<open>Lines 1249--1259: the final gamma gate.\<close>

definition final_gamma_gate ::
  "(Status_Flag \<Rightarrow> int) \<Rightarrow> int \<Rightarrow> real \<times> real \<times> Locals \<times> 'w Schema
     \<Rightarrow> (exit_point outcome \<times> 'w Schema) + (real \<times> real \<times> Locals \<times> 'w Schema)" where
  "final_gamma_gate sc subset_gid Q =
     (case Q of (gam, sig, L, S) \<Rightarrow>
        if final_gamma_threshold S \<noteq> - 1 \<and> gam > final_gamma_threshold S then
          Inl (Returned (Failed Final_gamma_gate),
               record_failed_step subset_gid (sc FRAME_FAILED_DUE_TO_HIGH_GAMMA) (num_iterations L)
                 (if initialization_method S = USE_PHASE_CORRELATION
                  then set_field subset_gid DISPLACEMENT_Y
                         (local_field_value S subset_gid DISPLACEMENT_Y + phase_cor_u_y S)
                         (set_field subset_gid DISPLACEMENT_X
                            (local_field_value S subset_gid DISPLACEMENT_X + phase_cor_u_x S) S)
                  else S))
        else Inr (gam, sig, L, S))"

text \<open>Lines 1263--1279: the path distance gate. The call is not guarded.\<close>

definition path_distance_gate ::
  "(Status_Flag \<Rightarrow> int) \<Rightarrow> 'w Collaborators \<Rightarrow> int \<Rightarrow> real \<times> real \<times> Locals \<times> 'w Schema
     \<Rightarrow> (exit_point outcome \<times> 'w Schema) + (real \<times> real \<times> Locals \<times> 'w Schema)" where
  "path_distance_gate sc C subset_gid Q =
     (case Q of (gam, sig, L, S) \<Rightarrow>
        if path_distance_threshold S \<noteq> - 1 \<and> path_file_names S subset_gid \<noteq> None then
          (case closest_triad C subset_gid (deformation L DISPLACEMENT_X)
                  (deformation L DISPLACEMENT_Y) (deformation L ROTATION_Z) (world S) of
             (Thrown e, w) \<Rightarrow> Inl (Thrown e, logged At_closest_triad (Exception e) w S)
           | (Returned path_distance, w) \<Rightarrow>
               (let S1 = logged At_closest_triad (Scalar path_distance) w S in
                  if path_distance > path_distance_threshold S1
                  then Inl (Returned (Failed Path_distance_gate),
                            record_failed_step subset_gid
                              (sc FRAME_FAILED_DUE_TO_HIGH_PATH_DISTANCE) (num_iterations L) S1)
                  else Inr (gam, sig, L, S1)))
        else Inr (gam, sig, L, S))"

text \<open>
  Lines 1284--1292: the commit. The status that is recorded is \<^verbatim>\<open>init_status\<close>. The
  debugging images written after that (lines 1296--1350) are file output and are not
  modelled.
\<close>

definition commit ::
  "(Status_Flag \<Rightarrow> int) \<Rightarrow> 'w Collaborators \<Rightarrow> int \<Rightarrow> real \<times> real \<times> Locals \<times> 'w Schema
     \<Rightarrow> exit_point outcome \<times> 'w Schema" where
  "commit sc C subset_gid Q =
     (case Q of (gam, sig, L, S) \<Rightarrow>
        (let S1 = record_step subset_gid (deformation L) sig 0 gam (sc (init_status L))
                    (num_iterations L)
                    (if projection_method S = VELOCITY_BASED
                     then save_off_fields subset_gid S else S)
         in if use_subset_evolution S1 \<and> image_frame S1 > 1 then
              (case turn_on_previously_obstructed_pixels C (world S1) of
                 (Thrown e, w) \<Rightarrow> (Thrown e, logged At_turn_on_pixels (Exception e) w S1)
               | (Returned u, w) \<Rightarrow> (Returned Succeeded, logged At_turn_on_pixels Normal w S1))
            else (Returned Succeeded, S1)))"

text \<open>Lines 1247--1292 together.\<close>

definition finish ::
  "(Status_Flag \<Rightarrow> int) \<Rightarrow> 'w Collaborators \<Rightarrow> int \<Rightarrow> Locals \<times> 'w Schema
     \<Rightarrow> exit_point outcome \<times> 'w Schema" where
  "finish sc C subset_gid LS =
     (case then_do (final_quality C LS) (\<lambda>Q.
           then_do (final_gamma_gate sc subset_gid Q) (\<lambda>Q.
           then_do (path_distance_gate sc C subset_gid Q) (\<lambda>Q.
             Inl (commit sc C subset_gid Q)))) of
        Inl r \<Rightarrow> r
      | Inr r \<Rightarrow> r)"

text \<open>The routine: the steps in the order of the source.\<close>

definition generic_correlation_routine ::
  "(Status_Flag \<Rightarrow> int) \<Rightarrow> 'w Collaborators \<Rightarrow> 'w Schema \<Rightarrow> exit_point outcome \<times> 'w Schema" where
  "generic_correlation_routine sc C S =
     (let subset_gid = correlation_point_global_id C in
        case then_do (motion_gate sc C subset_gid S) (\<lambda>S1.
             then_do (path_setup C subset_gid S1) (\<lambda>S2.
             then_do (initial_guess sc C subset_gid S2) (\<lambda>LS.
             then_do (check_initialization sc subset_gid LS) (\<lambda>LS.
             then_do (skip_solve sc C subset_gid LS) (\<lambda>LS.
             then_do (initial_gamma_gate sc subset_gid LS) (\<lambda>LS.
             then_do (first_attempt C LS) (\<lambda>LS.
             then_do (second_attempt sc C subset_gid LS) (\<lambda>LS.
               Inl (finish sc C subset_gid LS))))))))) of
          Inl r \<Rightarrow> r
        | Inr r \<Rightarrow> r)"


text \<open>The place of the first optimizer call, by the configured method.\<close>

definition first_site :: "'w Schema \<Rightarrow> call_site" where
  "first_site S =
     (if optimization_method S = GRADIENT_BASED \<or> optimization_method S = GRADIENT_BASED_THEN_SIMPLEX
      then At_first_fast else At_first_robust)"

text \<open>The place of the second optimizer call.\<close>

definition retry_site :: "'w Schema \<Rightarrow> call_site" where
  "retry_site S =
     (if optimization_method S = SIMPLEX_THEN_GRADIENT_BASED then At_retry_fast else At_retry_robust)"

subsection \<open>Relations between the states of a pass\<close>

text \<open>
  \<open>same_config\<close>: the configuration of the schema is the same in both states.
  \<open>kept\<close>: so are all field values. \<open>others_kept\<close>: the fields of all points but one are
  the same. \<open>guarded\<close>: the call at this place is inside a \<^verbatim>\<open>try\<close> block whose handler
  catches this exception.
\<close>

definition same_config :: "'w Schema \<Rightarrow> 'w Schema \<Rightarrow> bool" where
  "same_config S S' \<longleftrightarrow>
     image_frame S' = image_frame S \<and>
     initialization_method S' = initialization_method S \<and>
     optimization_method S' = optimization_method S \<and>
     projection_method S' = projection_method S \<and>
     initial_gamma_threshold S' = initial_gamma_threshold S \<and>
     final_gamma_threshold S' = final_gamma_threshold S \<and>
     path_distance_threshold S' = path_distance_threshold S \<and>
     phase_cor_u_x S' = phase_cor_u_x S \<and>
     phase_cor_u_y S' = phase_cor_u_y S \<and>
     path_file_names S' = path_file_names S \<and>
     skip_solve_flags S' = skip_solve_flags S \<and>
     motion_window_params S' = motion_window_params S \<and>
     use_subset_evolution S' = use_subset_evolution S"

definition kept :: "'w Schema \<Rightarrow> 'w Schema \<Rightarrow> bool" where
  "kept S S' \<longleftrightarrow> same_config S S' \<and> local_field_value S' = local_field_value S"

definition others_kept :: "int \<Rightarrow> 'w Schema \<Rightarrow> 'w Schema \<Rightarrow> bool" where
  "others_kept gid S S' \<longleftrightarrow> (\<forall>g. g \<noteq> gid \<longrightarrow> local_field_value S' g = local_field_value S g)"

definition guarded :: "call_site \<Rightarrow> exn \<Rightarrow> bool" where
  "guarded site e \<longleftrightarrow>
     e = Logic_error \<and>
     site \<in> {At_initial_guess, At_first_fast, At_first_robust, At_retry_fast, At_retry_robust}"

text \<open>
  \<open>failed_effect\<close>: what a pass that ends at a call of \<^verbatim>\<open>record_failed_step\<close> does to the
  fields of its point, from the state \<open>S\<close> to the state \<open>S'\<close>.
\<close>

definition failed_effect ::
  "(Status_Flag \<Rightarrow> int) \<Rightarrow> int \<Rightarrow> fail_site \<Rightarrow> 'w Schema \<Rightarrow> 'w Schema \<Rightarrow> bool" where
  "failed_effect sc gid site S S' \<longleftrightarrow>
     local_field_value S' gid ROTATION_Z = local_field_value S gid ROTATION_Z \<and>
     local_field_value S' gid NORMAL_STRAIN_X = local_field_value S gid NORMAL_STRAIN_X \<and>
     local_field_value S' gid NORMAL_STRAIN_Y = local_field_value S gid NORMAL_STRAIN_Y \<and>
     local_field_value S' gid SHEAR_STRAIN_XY = local_field_value S gid SHEAR_STRAIN_XY \<and>
     (if site = Final_gamma_gate \<and> initialization_method S = USE_PHASE_CORRELATION
      then local_field_value S' gid DISPLACEMENT_X
             = local_field_value S gid DISPLACEMENT_X + phase_cor_u_x S \<and>
           local_field_value S' gid DISPLACEMENT_Y
             = local_field_value S gid DISPLACEMENT_Y + phase_cor_u_y S
      else local_field_value S' gid DISPLACEMENT_X = local_field_value S gid DISPLACEMENT_X \<and>
           local_field_value S' gid DISPLACEMENT_Y = local_field_value S gid DISPLACEMENT_Y) \<and>
     local_field_value S' gid SIGMA_FIELD = - 1 \<and>
     local_field_value S' gid MATCH = - 1 \<and>
     local_field_value S' gid GAMMA = - 1 \<and>
     (\<exists>st n. local_field_value S' gid STATUS_FLAG = real_of_int (sc st) \<and>
             local_field_value S' gid ITERATIONS = real_of_int n)"

text \<open>
  \<open>advanced\<close>: the pass has gone from \<open>S\<close> to \<open>S'\<close> without touching a field.
  \<open>set_up\<close>: it has passed the motion gate and the path set-up. \<open>guessed\<close>: it has also
  passed the initial guess, with the local variables \<open>L\<close>. \<open>exit_summary\<close>: what holds when
  the routine is left from a state \<open>S\<close> with the result \<open>out\<close> in the state \<open>S'\<close>.
\<close>

definition advanced :: "'w Schema \<Rightarrow> 'w Schema \<Rightarrow> bool" where
  "advanced S S' \<longleftrightarrow> kept S S' \<and> (\<exists>evs. calls S' = calls S @ evs)"

definition set_up :: "'w Schema \<Rightarrow> 'w Schema \<Rightarrow> bool" where
  "set_up S S' \<longleftrightarrow>
     kept S S' \<and>
     (\<exists>evs. calls S' = calls S @ evs \<and>
            set evs \<subseteq> {(At_motion_test, Flag True), (At_new_path_initializer, Normal)})"

definition guessed :: "'w Schema \<Rightarrow> Locals \<Rightarrow> 'w Schema \<Rightarrow> bool" where
  "guessed S L S' \<longleftrightarrow>
     kept S S' \<and> num_iterations L = - 1 \<and> corr_status L = CORRELATION_FAILED \<and>
     (\<exists>evs r. calls S' = calls S @ evs @ [(At_initial_guess, r)] \<and>
        set evs \<subseteq> {(At_motion_test, Flag True), (At_new_path_initializer, Normal)} \<and>
        (\<forall>e. r \<noteq> Exception e) \<and>
        (\<forall>g. r = Scalar g \<longrightarrow> initial_gamma L = g \<and> init_status L = INITIALIZE_SUCCESSFUL))"

definition exit_summary ::
  "(Status_Flag \<Rightarrow> int) \<Rightarrow> int \<Rightarrow> 'w Schema \<Rightarrow> exit_point outcome \<Rightarrow> 'w Schema \<Rightarrow> bool" where
  "exit_summary sc gid S out S' \<longleftrightarrow>
     same_config S S' \<and> others_kept gid S S' \<and>
     (\<exists>evs. calls S' = calls S @ evs \<and>
        (\<forall>e. out = Thrown e \<longrightarrow>
             evs \<noteq> [] \<and> snd (last evs) = Exception e \<and> \<not> guarded (fst (last evs)) e)) \<and>
     (\<forall>site. out = Returned (Failed site) \<longrightarrow> failed_effect sc gid site S S')"

subsection \<open>Example configurations\<close>

text \<open>
  A numbering of the status flags, a set of collaborators and a schema state, used to
  evaluate the routine. The world is a counter of optimizer calls. The fast update does
  not converge, the robust update converges; the initial guess from the previous frame
  succeeds before the first optimizer call and throws \<^verbatim>\<open>std::logic_error\<close> after it; the
  path initializer gives an initial gamma of 0.10, the objective a final gamma of 0.01.
\<close>

fun example_flag_value :: "Status_Flag \<Rightarrow> int" where
  "example_flag_value CORRELATION_SUCCESSFUL = 0"
| "example_flag_value INITIALIZE_SUCCESSFUL = 3"
| "example_flag_value INITIALIZE_FAILED = 4"
| "example_flag_value CORRELATION_FAILED = 7"
| "example_flag_value INITIALIZE_FAILED_BY_EXCEPTION = 11"
| "example_flag_value CORRELATION_FAILED_BY_EXCEPTION = 13"
| "example_flag_value FRAME_SKIPPED = 20"
| "example_flag_value FRAME_SKIPPED_DUE_TO_NO_MOTION = 21"
| "example_flag_value FRAME_FAILED_DUE_TO_HIGH_GAMMA = 22"
| "example_flag_value FRAME_FAILED_DUE_TO_HIGH_PATH_DISTANCE = 23"
| "example_flag_value (OTHER_STATUS k) = 100 + int k"

definition example_collaborators :: "nat Collaborators" where
  "example_collaborators =
     \<lparr>correlation_point_global_id = 0,
      detect_motion = (\<lambda>i w. (Returned True, w)),
      new_path_initializer = (\<lambda>i name w. (Returned (), w)),
      path_initial_guess = (\<lambda>i prev d w. (Returned (10 / 100), d, w)),
      initialize_from_previous_frame =
        (\<lambda>f d w. (if w = 0 then Returned INITIALIZE_SUCCESSFUL else Thrown Logic_error, d, w)),
      initialize_from_neighbor = (\<lambda>f d w. (Returned INITIALIZE_SUCCESSFUL, d, w)),
      computeUpdateFast = (\<lambda>f d n w. (Returned CORRELATION_FAILED, d, 25, Suc w)),
      computeUpdateRobust = (\<lambda>f d n w. (Returned CORRELATION_SUCCESSFUL, d, 40, Suc w)),
      obj_sigma = (\<lambda>f d w. (Returned (1 / 2), w)),
      obj_gamma = (\<lambda>f d w. (Returned (1 / 100), w)),
      closest_triad = (\<lambda>i u v t w. (Returned 0, w)),
      turn_on_previously_obstructed_pixels = (\<lambda>w. (Returned (), w))\<rparr>"

definition example_schema :: "nat Schema" where
  "example_schema =
     \<lparr>local_field_value = (\<lambda>g f. 0),
      local_field_value_nm1 = (\<lambda>g f. 0),
      image_frame = 1,
      initialization_method = USE_FIELD_VALUES,
      optimization_method = GRADIENT_BASED_THEN_SIMPLEX,
      projection_method = OTHER_PROJECTION_METHOD,
      initial_gamma_threshold = - 1,
      final_gamma_threshold = - 1,
      path_distance_threshold = - 1,
      phase_cor_u_x = 1,
      phase_cor_u_y = 2,
      path_file_names = Map.empty,
      skip_solve_flags = Map.empty,
      motion_window_params = Map.empty,
      motion_detectors = (\<lambda>i. False),
      opt_initializers = (\<lambda>i. False),
      use_subset_evolution = False,
      world = 0,
      calls = []\<rparr>"


text \<open>
  The same collaborators with an objective whose \<^verbatim>\<open>initialize_from_previous_frame\<close> throws
  \<^verbatim>\<open>std::logic_error\<close>.
\<close>

definition example_collaborators_no_previous_frame :: "nat Collaborators" where
  "example_collaborators_no_previous_frame =
     example_collaborators\<lparr>initialize_from_previous_frame := (\<lambda>f d w. (Thrown Logic_error, d, w))\<rparr>"

section \<open>Properties of the partitioners\<close>

subsection \<open>Round-robin distribution\<close>

lemma rr_pass_eq:
  "rr_pass act ps gs s = (drop (length ps) gs, fold (\<lambda>(p, g). act p g) (zip ps gs) s)"
  by (induction act ps gs s rule: rr_pass.induct) auto

lemma fold_enumerate_shift:
  "0 < np \<Longrightarrow> fold (\<lambda>(i, g). act (i mod np) g) (enumerate (k + np) xs) s
     = fold (\<lambda>(i, g). act (i mod np) g) (enumerate k xs) s"
proof (induction xs arbitrary: k s)
  case Nil
  then show ?case by simp
next
  case (Cons x xs)
  from Cons.IH [OF Cons.prems, of "Suc k"] show ?case by simp
qed

lemma zip_upt_enumerate: "zip [k..<k + n] gs = enumerate k (take n gs)"
proof (induction gs arbitrary: k n)
  case Nil
  then show ?case by simp
next
  case (Cons g gs)
  show ?case
  proof (cases n)
    case 0
    then show ?thesis by simp
  next
    case (Suc m)
    have "[k..<k + Suc m] = k # [Suc k..<Suc k + m]"
      by (simp add: upt_rec)
    with Cons.IH [of "Suc k" m] Suc show ?thesis by simp
  qed
qed

lemma fold_first_pass:
  "fold (\<lambda>(p, g). act p g) (zip [0..<np] gs) s
     = fold (\<lambda>(i, g). act (i mod np) g) (enumerate 0 (take np gs)) s"
proof -
  have "zip [0..<np] gs = enumerate 0 (take np gs)"
    using zip_upt_enumerate [of 0 np gs] by simp
  moreover have "fold (\<lambda>(p, g). act p g) (enumerate 0 (take np gs)) s
     = fold (\<lambda>(i, g). act (i mod np) g) (enumerate 0 (take np gs)) s"
    by (rule fold_cong) (auto simp: in_set_enumerate_eq)
  ultimately show ?thesis by simp
qed

lemma round_robin_eq:
  "0 < np \<Longrightarrow>
     round_robin act np gs s = Some (fold (\<lambda>(i, g). act (i mod np) g) (enumerate 0 gs) s)"
proof (induction "length gs" arbitrary: gs s rule: less_induct)
  case less
  show ?case
  proof (cases "gs = []")
    case True
    then show ?thesis by (simp add: round_robin.simps)
  next
    case False
    let ?F = "\<lambda>(i, g). act (i mod np) g"
    let ?s' = "fold (\<lambda>(p, g). act p g) (zip [0..<np] gs) s"
    from False less.prems have shorter: "length (drop np gs) < length gs" by simp
    have "round_robin act np gs s = round_robin act np (drop np gs) ?s'"
      using False by (subst round_robin.simps) (simp add: rr_pass_eq)
    also have "\<dots> = Some (fold ?F (enumerate 0 (drop np gs)) ?s')"
      by (rule less.hyps [OF shorter less.prems])
    also have "fold ?F (enumerate 0 (drop np gs)) ?s' = fold ?F (enumerate 0 gs) s"
    proof -
      have split: "enumerate 0 gs
          = enumerate 0 (take np gs) @ enumerate (min (length gs) np) (drop np gs)"
        using enumerate_append_eq [of 0 "take np gs" "drop np gs"] by simp
      have tail: "fold ?F (enumerate (min (length gs) np) (drop np gs)) t
          = fold ?F (enumerate 0 (drop np gs)) t" for t
      proof (cases "np \<le> length gs")
        case True
        then have "min (length gs) np = 0 + np" by simp
        then show ?thesis
          using fold_enumerate_shift [OF less.prems, of act 0 "drop np gs" t] by simp
      next
        case False
        then show ?thesis by simp
      qed
      show ?thesis
        unfolding fold_first_pass by (subst split) (simp add: tail)
    qed
    finally show ?thesis .
  qed
qed

subsection \<open>The Dependency Partitioner\<close>

lemma local_subset_ids_total:
  "0 < nprocs \<Longrightarrow> \<exists>ls. local_subset_ids n nprocs obst = Some ls"
  by (simp add: local_subset_ids_def Let_def round_robin_eq)

lemma tiers_exclusive: "no_blockers obst x \<longleftrightarrow> \<not> has_blockers obst x"
  by (simp add: no_blockers_def has_blockers_def split: option.splits)

lemma order_local_ids_two_tier:
  assumes "i < length (order_local_ids obst S)" and "j < length (order_local_ids obst S)"
    and "no_blockers obst (order_local_ids obst S ! i)"
    and "has_blockers obst (order_local_ids obst S ! j)"
  shows "i < j"
proof -
  let ?xs = "filter (no_blockers obst) S" and ?ys = "filter (has_blockers obst) S"
  have l: "order_local_ids obst S = ?xs @ ?ys" by (simp add: order_local_ids_def)
  have i: "i < length ?xs"
  proof (rule ccontr)
    assume "\<not> i < length ?xs"
    with assms(1) have "(?xs @ ?ys) ! i = ?ys ! (i - length ?xs)" "i - length ?xs < length ?ys"
      by (auto simp: l nth_append)
    then have "(?xs @ ?ys) ! i \<in> set ?ys"
      using nth_mem by metis
    with assms(3) show False by (simp add: l tiers_exclusive)
  qed
  have j: "\<not> j < length ?xs"
  proof
    assume "j < length ?xs"
    then have "(?xs @ ?ys) ! j = ?xs ! j" "?xs ! j \<in> set ?xs"
      by (auto simp: nth_append simp del: set_filter)
    then have "(?xs @ ?ys) ! j \<in> set ?xs"
      by simp
    with assms(4) show False by (simp add: l tiers_exclusive)
  qed
  from i j show ?thesis by simp
qed

text \<open>
  Claim C8. In every local id list the Dependency Partitioner produces, the ids without
  blockers (no entry in the occlusion map, or an entry with an empty list) come before
  every id with at least one blocker. The list exists for every process of a communicator
  (\<open>rank < nprocs\<close>).
\<close>

theorem obstruction_two_tier_order:
  assumes "rank < nprocs"
  shows "\<exists>local_ids. obstruction_local_ids n nprocs rank obst = Some local_ids \<and>
           (\<forall>i j. i < length local_ids \<and> j < length local_ids \<and>
                  no_blockers obst (local_ids ! i) \<and> has_blockers obst (local_ids ! j)
                  \<longrightarrow> i < j)"
proof -
  from assms have "0 < nprocs" by simp
  from local_subset_ids_total [OF this] obtain ls
    where ls: "local_subset_ids n nprocs obst = Some ls" by blast
  with assms have "obstruction_local_ids n nprocs rank obst = Some (order_local_ids obst (ls ! rank))"
    by (simp add: obstruction_local_ids_def)
  then show ?thesis
    using order_local_ids_two_tier by blast
qed

theorem obstruction_two_tier_order_witness:
  "obstruction_local_ids 6 2 0 [(1, [5]), (2, [0]), (3, [5, 0])] = Some [0, 5, 1, 3] \<and>
   no_blockers [(1, [5]), (2, [0]), (3, [5, 0])] 5 \<and>
   has_blockers [(1, [5]), (2, [0]), (3, [5, 0])] 1 \<and> (1::nat) < 2"
proof -
  have r: "(0::nat) < 2" by simp
  have ev: "obstruction_local_ids 6 2 0 [(1, [5]), (2, [0]), (3, [5, 0])] = Some [0, 5, 1, 3]"
    by code_simp
  have nb: "no_blockers [(1, [5]), (2, [0]), (3, [5, 0])] 5"
    by (simp add: no_blockers_def)
  have hb: "has_blockers [(1, [5]), (2, [0]), (3, [5, 0])] 1"
    by (simp add: has_blockers_def)
  from obstruction_two_tier_order [OF r, of 6 "[(1, [5]), (2, [0]), (3, [5, 0])]"]
  obtain l where l: "obstruction_local_ids 6 2 0 [(1, [5]), (2, [0]), (3, [5, 0])] = Some l"
    and ord: "\<forall>i j. i < length l \<and> j < length l \<and>
      no_blockers [(1, [5]), (2, [0]), (3, [5, 0])] (l ! i) \<and>
      has_blockers [(1, [5]), (2, [0]), (3, [5, 0])] (l ! j) \<longrightarrow> i < j"
    by blast
  from l ev have eq: "l = [0, 5, 1, 3]" by simp
  have "1 < length l \<and> 2 < length l \<and>
      no_blockers [(1, [5]), (2, [0]), (3, [5, 0])] (l ! 1) \<and>
      has_blockers [(1, [5]), (2, [0]), (3, [5, 0])] (l ! 2)"
    unfolding eq using nb hb by simp
  with ord have "(1::nat) < 2" by blast
  with ev nb hb show ?thesis by simp
qed

text \<open>
  Claim C1. With six points, two processes and the occlusion map
  \<open>1 \<mapsto> [5], 2 \<mapsto> [0], 3 \<mapsto> [5, 0]\<close> (no blocker is itself blocked), id 0 is put
  into the local lists of both processes: the lists do not partition the ids, and the map
  built from them is not one-to-one, which line 747 asserts. After the match on entry 3
  the iterator is reset to the new smallest element 0, but the scan goes on behind entry
  3 and \<^verbatim>\<open>++dep_it\<close> then leaves 0, so entry 2, which holds 0, is never added to the group.
\<close>

theorem obstruction_lists_share_an_id:
  "obstruction_local_ids 6 2 0 [(1, [5]), (2, [0]), (3, [5, 0])] = Some [0, 5, 1, 3] \<and>
   obstruction_local_ids 6 2 1 [(1, [5]), (2, [0]), (3, [5, 0])] = Some [0, 4, 2]"
proof
  show "obstruction_local_ids 6 2 0 [(1, [5]), (2, [0]), (3, [5, 0])] = Some [0, 5, 1, 3]"
    by code_simp
  show "obstruction_local_ids 6 2 1 [(1, [5]), (2, [0]), (3, [5, 0])] = Some [0, 4, 2]"
    by code_simp
qed

text \<open>
  Claim C7. When a neighbor-id array and a non-empty occlusion map are both configured,
  the seed distribution map is the distribution map the Dependency Partitioner built,
  whatever the neighbor ids are: no seed chains are formed.
\<close>

theorem seed_map_is_obstruction_map:
  assumes "obst \<noteq> []" and "rank < nprocs"
  shows "\<exists>local_ids s.
           obstruction_local_ids n nprocs rank obst = Some local_ids \<and>
           initialize_maps n rank nprocs (Some obst) (Some nbs) = Some s \<and>
           dist_map s = List_Map n local_ids \<and>
           seed_dist_map s = Some (List_Map n local_ids)"
proof -
  from assms(2) have "0 < nprocs" by simp
  from local_subset_ids_total [OF this] obtain ls
    where ls: "local_subset_ids n nprocs obst = Some ls" by blast
  with assms show ?thesis
    by (simp add: initialize_maps_def create_obstruction_dist_map_def
        create_seed_dist_map_def obstruction_local_ids_def)
qed

theorem seed_map_is_obstruction_map_witness:
  "\<exists>s. initialize_maps 6 0 2 (Some [(1, [5]), (2, [0]), (3, [5, 0])]) (Some [- 1, 0, 1, - 1, 3, 4]) = Some s \<and>
       dist_map s = List_Map 6 [0, 5, 1, 3] \<and> seed_dist_map s = Some (List_Map 6 [0, 5, 1, 3])"
proof -
  have h1: "[(1, [5]), (2, [0]), (3, [5, 0])] \<noteq> ([] :: obstruction_map)" by simp
  have h2: "(0::nat) < 2" by simp
  have ev: "obstruction_local_ids 6 2 0 [(1, [5]), (2, [0]), (3, [5, 0])] = Some [0, 5, 1, 3]"
    by code_simp
  from seed_map_is_obstruction_map [OF h1 h2, of 6 "[- 1, 0, 1, - 1, 3, 4]"]
  obtain local_ids s where
    "obstruction_local_ids 6 2 0 [(1, [5]), (2, [0]), (3, [5, 0])] = Some local_ids"
    "initialize_maps 6 0 2 (Some [(1, [5]), (2, [0]), (3, [5, 0])]) (Some [- 1, 0, 1, - 1, 3, 4]) = Some s"
    "dist_map s = List_Map 6 local_ids" "seed_dist_map s = Some (List_Map 6 local_ids)"
    by blast
  with ev show ?thesis by simp
qed

subsection \<open>The Seed Partitioner\<close>

lemma seed_inv_init: "seed_inv nbs (length nbs) ([], [])"
proof -
  have "\<exists>m. length nbs \<le> m \<and> m \<le> length nbs \<and> [] = map int (rev [length nbs..<m]) \<and>
      seed_run nbs (length nbs) m \<and> (m = length nbs \<or> nbs ! m = - 1)"
    by (intro exI [of _ "length nbs"]) (simp add: seed_run_def)
  then show ?thesis
    unfolding seed_inv_def by simp
qed

lemma seed_inv_step:
  assumes "seed_inv nbs (Suc n) st" and "n < length nbs"
  shows "seed_inv nbs n (seed_step nbs n st)"
proof -
  obtain tg sg where st: "st = (tg, sg)" by (cases st)
  from assms(1) st obtain m where m: "Suc n \<le> m" "m \<le> length nbs" "tg = map int (rev [Suc n..<m])"
      "seed_run nbs (Suc n) m" "m = length nbs \<or> nbs ! m = - 1"
    by (auto simp: seed_inv_def)
  from assms(1) st have groups: "\<forall>g \<in> set sg. \<exists>a b. Suc n \<le> a \<and> a < b \<and> b \<le> length nbs \<and>
      g = map int (rev [a..<b]) \<and> nbs ! a = - 1 \<and> seed_run nbs (Suc a) b"
    by (auto simp: seed_inv_def)
  from assms(1) st have cover: "\<Union> (set ` set sg) \<union> set tg = int ` {Suc n..<length nbs}"
    by (auto simp: seed_inv_def)
  have tg': "tg @ [int n] = map int (rev [n..<m])"
    using m(1,3) by (simp add: upt_conv_Cons)
  have groups': "\<forall>g \<in> set sg. \<exists>a b. n \<le> a \<and> a < b \<and> b \<le> length nbs \<and>
      g = map int (rev [a..<b]) \<and> nbs ! a = - 1 \<and> seed_run nbs (Suc a) b"
    using groups by (meson Suc_leD)
  have range: "int ` {n..<length nbs} = insert (int n) (int ` {Suc n..<length nbs})"
    using assms(2) by (auto simp: image_iff)
  have cover': "\<Union> (set ` set sg) \<union> set (tg @ [int n]) = int ` {n..<length nbs}"
    using cover range by auto
  show ?thesis
  proof (cases "nbs ! n = - 1")
    case True
    have new: "\<exists>a b. n \<le> a \<and> a < b \<and> b \<le> length nbs \<and>
      tg @ [int n] = map int (rev [a..<b]) \<and> nbs ! a = - 1 \<and> seed_run nbs (Suc a) b"
      using m True tg' by (intro exI [of _ n] exI [of _ m]) simp
    have empty: "\<exists>m. n \<le> m \<and> m \<le> length nbs \<and> [] = map int (rev [n..<m]) \<and> seed_run nbs n m \<and>
             (m = length nbs \<or> nbs ! m = - 1)"
      using True assms(2) by (intro exI [of _ n]) (simp add: seed_run_def)
    have "\<Union> (set ` set (sg @ [tg @ [int n]])) \<union> set [] = int ` {n..<length nbs}"
      using cover' by auto
    with True new empty groups' show ?thesis
      unfolding seed_inv_def seed_step_def st by (simp add: Let_def del: upt_Suc)
  next
    case False
    have run: "seed_run nbs n m"
      using m(4) False unfolding seed_run_def by (metis Suc_leI le_neq_implies_less)
    have "\<exists>m. n \<le> m \<and> m \<le> length nbs \<and> tg @ [int n] = map int (rev [n..<m]) \<and> seed_run nbs n m \<and>
             (m = length nbs \<or> nbs ! m = - 1)"
      using m tg' run by (intro exI [of _ m]) simp
    with False groups' cover' show ?thesis
      unfolding seed_inv_def seed_step_def st by (simp add: Let_def del: upt_Suc)
  qed
qed

lemma seed_inv_fold:
  "seed_inv nbs n st \<Longrightarrow> n \<le> length nbs \<Longrightarrow>
     seed_inv nbs 0 (fold (seed_step nbs) (rev [0..<n]) st)"
proof (induction n arbitrary: st)
  case 0
  then show ?case by simp
next
  case (Suc n)
  from seed_inv_step [OF Suc.prems(1)] Suc.prems(2)
  have "seed_inv nbs n (seed_step nbs n st)" by simp
  from Suc.IH [OF this] Suc.prems(2) show ?case by simp
qed

lemma seed_scan_inv: "seed_inv nbs 0 (seed_scan nbs)"
  unfolding seed_scan_def by (rule seed_inv_fold [OF seed_inv_init]) simp

lemma fold_keep_group:
  "fold (\<lambda>(i, g). keep_group p (i mod np) g) xs acc
     = acc @ map (\<lambda>(i, g). rev g) (filter (\<lambda>(i, g). i mod np = p) xs)"
  by (induction xs arbitrary: acc) (auto simp: keep_group_def)

lemma local_seed_groupings_eq:
  "0 < np \<Longrightarrow> local_seed_groupings np p nbs
     = Some (map (\<lambda>(i, g). rev g)
              (filter (\<lambda>(i, g). i mod np = p) (enumerate 0 (snd (seed_scan nbs)))))"
  by (simp add: local_seed_groupings_def round_robin_eq fold_keep_group)

lemma local_chain_is_group:
  assumes "0 < np" and "local_seed_groupings np p nbs = Some cs" and "c \<in> set cs"
  shows "\<exists>g \<in> set (snd (seed_scan nbs)). c = rev g"
proof -
  from assms obtain i g where "(i, g) \<in> set (enumerate 0 (snd (seed_scan nbs)))" "c = rev g"
    by (auto simp: local_seed_groupings_eq)
  then show ?thesis
    by (auto simp: in_set_enumerate_eq)
qed

lemma group_is_local_chain:
  assumes "0 < np" and "g \<in> set (snd (seed_scan nbs))"
  shows "\<exists>p < np. \<exists>cs. local_seed_groupings np p nbs = Some cs \<and> rev g \<in> set cs"
proof -
  from assms(2) obtain i where i: "i < length (snd (seed_scan nbs))" "snd (seed_scan nbs) ! i = g"
    by (auto simp: in_set_conv_nth)
  then have "(i, g) \<in> set (enumerate 0 (snd (seed_scan nbs)))"
    by (simp add: in_set_enumerate_eq)
  then have "rev g \<in> set (map (\<lambda>(i, g). rev g)
       (filter (\<lambda>(j, g). j mod np = i mod np) (enumerate 0 (snd (seed_scan nbs)))))"
    by force
  with assms(1) show ?thesis
    by (intro exI [of _ "i mod np"]) (simp add: local_seed_groupings_eq)
qed

lemma seed_group_shape:
  assumes "g \<in> set (snd (seed_scan nbs))"
  shows "\<exists>a b. a < b \<and> b \<le> length nbs \<and> rev g = map int [a..<b] \<and> nbs ! a = - 1 \<and>
           seed_run nbs (Suc a) b"
proof -
  obtain tg sg where st: "seed_scan nbs = (tg, sg)" by (cases "seed_scan nbs")
  with seed_scan_inv [of nbs] assms obtain a b where
    "a < b" "b \<le> length nbs" "g = map int (rev [a..<b])" "nbs ! a = - 1" "seed_run nbs (Suc a) b"
    unfolding seed_inv_def by auto
  then show ?thesis
    by (intro exI [of _ a] exI [of _ b]) (simp add: rev_map)
qed

text \<open>
  Claim C6, as the code has it. With no obstruction map active, every chain of every
  process starts at an id whose neighbor id is the seed sentinel \<open>-1\<close>, and every later
  id of the chain is the id before it plus one and is not a seed. The neighbor ids of
  the later ids are not read by the partitioner.
\<close>

theorem seed_chains_are_runs:
  assumes "0 < nprocs"
  shows "\<exists>cs. local_seed_groupings nprocs rank nbs = Some cs \<and>
           (\<forall>c \<in> set cs.
              c \<noteq> [] \<and> 0 \<le> hd c \<and> nat (hd c) < length nbs \<and> nbs ! nat (hd c) = - 1 \<and>
              (\<forall>k. Suc k < length c \<longrightarrow>
                    c ! Suc k = c ! k + 1 \<and> nbs ! nat (c ! Suc k) \<noteq> - 1))"
proof -
  from local_seed_groupings_eq [OF assms] obtain cs
    where cs: "local_seed_groupings nprocs rank nbs = Some cs" by simp
  have "c \<noteq> [] \<and> 0 \<le> hd c \<and> nat (hd c) < length nbs \<and> nbs ! nat (hd c) = - 1 \<and>
        (\<forall>k. Suc k < length c \<longrightarrow> c ! Suc k = c ! k + 1 \<and> nbs ! nat (c ! Suc k) \<noteq> - 1)"
    if "c \<in> set cs" for c
  proof -
    from local_chain_is_group [OF assms cs that] seed_group_shape obtain a b where
      ab: "a < b" "b \<le> length nbs" "c = map int [a..<b]" "nbs ! a = - 1" "seed_run nbs (Suc a) b"
      by blast
    from ab(1,3) have hd: "hd c = int a" "c \<noteq> []"
      by (simp_all add: hd_map upt_conv_Cons)
    have "c ! Suc k = c ! k + 1 \<and> nbs ! nat (c ! Suc k) \<noteq> - 1" if "Suc k < length c" for k
    proof -
      from that ab(3) have k: "Suc k < b - a" by simp
      then have "c ! Suc k = int (a + Suc k)" "c ! k = int (a + k)"
        using ab(3) by simp_all
      moreover from k ab(5) have "nbs ! (a + Suc k) \<noteq> - 1"
        unfolding seed_run_def by simp
      moreover have "nat (int (a + Suc k)) = a + Suc k" by simp
      ultimately show ?thesis by (simp only: of_nat_add of_nat_Suc) simp
    qed
    with hd ab show ?thesis by simp
  qed
  with cs show ?thesis by blast
qed

text \<open>
  Claim C6 as stated fails: for the neighbor ids \<open>[-1, 0, 0]\<close> the chain is \<open>[0, 1, 2]\<close>,
  and the stored neighbor id of the non-seed id 2 is 0, not the id 1 that precedes it.
\<close>

theorem seed_chain_neighbor_counterexample:
  "local_seed_groupings 1 0 [- 1, 0, 0] = Some [[0, 1, 2]] \<and>
   [- 1, 0, 0 :: int] ! nat ([0, 1, 2] ! 2) \<noteq> - 1 \<and>
   [- 1, 0, 0 :: int] ! nat ([0, 1, 2] ! 2) \<noteq> [0, 1, 2] ! 1"
proof -
  have "local_seed_groupings 1 0 [- 1, 0, 0] = Some [[0, 1, 2]]"
    by code_simp
  then show ?thesis by simp
qed

theorem seed_chains_are_runs_witness:
  "local_seed_groupings 2 0 [- 1, 0, 0, - 1, 3] = Some [[3, 4]] \<and>
   [- 1, 0, 0, - 1, 3 :: int] ! nat (hd [3, 4]) = - 1 \<and> [3, 4 :: int] ! Suc 0 = [3, 4] ! 0 + 1"
proof -
  have np: "(0::nat) < 2" by simp
  have ev: "local_seed_groupings 2 0 [- 1, 0, 0, - 1, 3] = Some [[3, 4]]"
    by code_simp
  from seed_chains_are_runs [OF np, of 0 "[- 1, 0, 0, - 1, 3]"] ev
  have "\<forall>c \<in> set [[3, 4 :: int]]. c \<noteq> [] \<and> 0 \<le> hd c \<and> nat (hd c) < length [- 1, 0, 0, - 1, 3 :: int] \<and>
      [- 1, 0, 0, - 1, 3 :: int] ! nat (hd c) = - 1 \<and>
      (\<forall>k. Suc k < length c \<longrightarrow> c ! Suc k = c ! k + 1 \<and> [- 1, 0, 0, - 1, 3 :: int] ! nat (c ! Suc k) \<noteq> - 1)"
    by auto
  then have "[- 1, 0, 0, - 1, 3 :: int] ! nat (hd [3, 4]) = - 1 \<and>
      (Suc 0 < length [3, 4 :: int] \<longrightarrow> [3, 4 :: int] ! Suc 0 = [3, 4] ! 0 + 1)"
    by (metis list.set_intros(1))
  with ev show ?thesis by simp
qed

lemma seed_scan_cover:
  assumes "i < length nbs"
  shows "(\<exists>g \<in> set (snd (seed_scan nbs)). int i \<in> set g) \<longleftrightarrow> (\<exists>s \<le> i. nbs ! s = - 1)"
proof
  assume "\<exists>g \<in> set (snd (seed_scan nbs)). int i \<in> set g"
  then obtain g where g: "g \<in> set (snd (seed_scan nbs))" "int i \<in> set g" by blast
  from seed_group_shape [OF g(1)] obtain a b where
    ab: "rev g = map int [a..<b]" "nbs ! a = - 1" by blast
  from g(2) have "int i \<in> set (rev g)" by simp
  with ab(1) have "a \<le> i" by auto
  with ab(2) show "\<exists>s \<le> i. nbs ! s = - 1" by blast
next
  assume seed: "\<exists>s \<le> i. nbs ! s = - 1"
  obtain tg sg where st: "seed_scan nbs = (tg, sg)" by (cases "seed_scan nbs")
  with seed_scan_inv [of nbs] obtain m where
    m: "tg = map int (rev [0..<m])" "seed_run nbs 0 m"
    and cover: "\<Union> (set ` set sg) \<union> set tg = int ` {0..<length nbs}"
    unfolding seed_inv_def by auto
  have "int i \<notin> set tg"
  proof
    assume "int i \<in> set tg"
    with m(1) have "i < m" by auto
    with m(2) seed show False
      unfolding seed_run_def by (meson le0 le_less_trans)
  qed
  moreover from assms have "int i \<in> int ` {0..<length nbs}" by simp
  ultimately have "int i \<in> \<Union> (set ` set sg)"
    using cover by blast
  with st show "\<exists>g \<in> set (snd (seed_scan nbs)). int i \<in> set g" by auto
qed

lemma in_some_local_chain:
  assumes "0 < np"
  shows "(\<exists>p < np. \<exists>cs. local_seed_groupings np p nbs = Some cs \<and> x \<in> set (concat cs))
     \<longleftrightarrow> (\<exists>g \<in> set (snd (seed_scan nbs)). x \<in> set g)"
proof
  assume "\<exists>p < np. \<exists>cs. local_seed_groupings np p nbs = Some cs \<and> x \<in> set (concat cs)"
  then obtain p cs c where "local_seed_groupings np p nbs = Some cs" "c \<in> set cs" "x \<in> set c"
    by auto
  with local_chain_is_group [OF assms] show "\<exists>g \<in> set (snd (seed_scan nbs)). x \<in> set g"
    by fastforce
next
  assume "\<exists>g \<in> set (snd (seed_scan nbs)). x \<in> set g"
  then obtain g where g: "g \<in> set (snd (seed_scan nbs))" "x \<in> set g" by blast
  from group_is_local_chain [OF assms g(1)] obtain p cs where
    pcs: "p < np" "local_seed_groupings np p nbs = Some cs" "rev g \<in> set cs" by blast
  from g(2) have "x \<in> set (rev g)" by simp
  with pcs(3) have "x \<in> set (concat cs)" by (simp del: set_rev) blast
  with pcs(1,2) show "\<exists>p < np. \<exists>cs. local_seed_groupings np p nbs = Some cs \<and> x \<in> set (concat cs)"
    by blast
qed

lemma initialize_maps_seed_chains:
  assumes "p < nprocs" and "obst = None \<or> obst = Some []"
  shows "\<exists>s cs. initialize_maps n p nprocs obst (Some nbs) = Some s \<and>
                local_seed_groupings nprocs p nbs = Some cs \<and>
                seed_dist_map s = Some (List_Map n (concat cs))"
proof -
  from assms(1) have np: "0 < nprocs" by simp
  from local_seed_groupings_eq [OF np] obtain cs
    where cs: "local_seed_groupings nprocs p nbs = Some cs" by blast
  from local_subset_ids_total [OF np] obtain ls
    where ls: "local_subset_ids n nprocs [] = Some ls" by blast
  from assms(2) show ?thesis
  proof
    assume "obst = None"
    with cs show ?thesis
      by (simp add: initialize_maps_def create_obstruction_dist_map_def create_seed_dist_map_def)
  next
    assume "obst = Some []"
    with cs ls assms(1) show ?thesis
      by (simp add: initialize_maps_def create_obstruction_dist_map_def create_seed_dist_map_def
          obstruction_local_ids_def)
  qed
qed

lemma in_some_seed_map:
  assumes "0 < nprocs" and "obst = None \<or> obst = Some []"
  shows "(\<exists>p < nprocs. \<exists>s ids. initialize_maps n p nprocs obst (Some nbs) = Some s \<and>
            seed_dist_map s = Some (List_Map n ids) \<and> x \<in> set ids)
     \<longleftrightarrow> (\<exists>p < nprocs. \<exists>cs. local_seed_groupings nprocs p nbs = Some cs \<and> x \<in> set (concat cs))"
proof
  assume "\<exists>p < nprocs. \<exists>s ids. initialize_maps n p nprocs obst (Some nbs) = Some s \<and>
            seed_dist_map s = Some (List_Map n ids) \<and> x \<in> set ids"
  then obtain p s ids where p: "p < nprocs"
    and s: "initialize_maps n p nprocs obst (Some nbs) = Some s"
      "seed_dist_map s = Some (List_Map n ids)" "x \<in> set ids"
    by blast
  from initialize_maps_seed_chains [OF p assms(2), of n nbs] s
  show "\<exists>p < nprocs. \<exists>cs. local_seed_groupings nprocs p nbs = Some cs \<and> x \<in> set (concat cs)"
    using p by auto
next
  assume "\<exists>p < nprocs. \<exists>cs. local_seed_groupings nprocs p nbs = Some cs \<and> x \<in> set (concat cs)"
  then obtain p cs where p: "p < nprocs"
    and cs: "local_seed_groupings nprocs p nbs = Some cs" "x \<in> set (concat cs)"
    by blast
  from initialize_maps_seed_chains [OF p assms(2), of n nbs] cs(1)
  obtain s where "initialize_maps n p nprocs obst (Some nbs) = Some s"
    "seed_dist_map s = Some (List_Map n (concat cs))"
    by auto
  with p cs(2)
  show "\<exists>p < nprocs. \<exists>s ids. initialize_maps n p nprocs obst (Some nbs) = Some s \<and>
            seed_dist_map s = Some (List_Map n ids) \<and> x \<in> set ids"
    by blast
qed

lemma seed_below_all: "(\<forall>i < length nbs. \<exists>s \<le> i. nbs ! s = (- 1 :: int)) \<longleftrightarrow> (nbs = [] \<or> nbs ! 0 = - 1)"
proof (cases "nbs = []")
  case True
  then show ?thesis by simp
next
  case False
  then have pos: "0 < length nbs" by simp
  show ?thesis
  proof
    assume "\<forall>i < length nbs. \<exists>s \<le> i. nbs ! s = - 1"
    with pos have "\<exists>s \<le> 0. nbs ! s = - 1" by blast
    then show "nbs = [] \<or> nbs ! 0 = - 1" by simp
  next
    assume "nbs = [] \<or> nbs ! 0 = - 1"
    with False have "nbs ! 0 = - 1" by simp
    then show "\<forall>i < length nbs. \<exists>s \<le> i. nbs ! s = - 1" by blast
  qed
qed

text \<open>
  Claim C10. With a neighbor-id array and no obstruction map, or an empty one, every
  process gets a seed distribution map, whose list of ids is the concatenation of the
  chains of the process. An id is in a chain, and in the seed distribution map of some
  process, exactly when some id not greater than it is a seed: the ids below the smallest
  seed are in no chain and in no seed distribution map. The maps hold all ids only when
  id 0 is a seed.
\<close>

theorem seed_map_omits_ids_below_first_seed:
  assumes "0 < nprocs" and "obst = None \<or> obst = Some []"
  shows "(\<forall>p < nprocs. \<exists>s cs.
            initialize_maps (int (length nbs)) p nprocs obst (Some nbs) = Some s \<and>
            local_seed_groupings nprocs p nbs = Some cs \<and>
            seed_dist_map s = Some (List_Map (int (length nbs)) (concat cs))) \<and>
         (\<forall>i < length nbs.
            (\<exists>p < nprocs. \<exists>cs. local_seed_groupings nprocs p nbs = Some cs \<and> int i \<in> set (concat cs))
            \<longleftrightarrow> (\<exists>s \<le> i. nbs ! s = - 1)) \<and>
         (\<forall>i < length nbs.
            (\<exists>p < nprocs. \<exists>s ids.
               initialize_maps (int (length nbs)) p nprocs obst (Some nbs) = Some s \<and>
               seed_dist_map s = Some (List_Map (int (length nbs)) ids) \<and> int i \<in> set ids)
            \<longleftrightarrow> (\<exists>s \<le> i. nbs ! s = - 1)) \<and>
         ((\<forall>i < length nbs.
            \<exists>p < nprocs. \<exists>s ids.
               initialize_maps (int (length nbs)) p nprocs obst (Some nbs) = Some s \<and>
               seed_dist_map s = Some (List_Map (int (length nbs)) ids) \<and> int i \<in> set ids)
            \<longleftrightarrow> (nbs = [] \<or> nbs ! 0 = - 1))"
proof -
  have maps: "\<forall>p < nprocs. \<exists>s cs.
      initialize_maps (int (length nbs)) p nprocs obst (Some nbs) = Some s \<and>
      local_seed_groupings nprocs p nbs = Some cs \<and>
      seed_dist_map s = Some (List_Map (int (length nbs)) (concat cs))"
    using initialize_maps_seed_chains [OF _ assms(2), of _ nprocs "int (length nbs)" nbs] by blast
  have chain: "(\<exists>p < nprocs. \<exists>cs. local_seed_groupings nprocs p nbs = Some cs \<and> int i \<in> set (concat cs))
      \<longleftrightarrow> (\<exists>s \<le> i. nbs ! s = - 1)" if "i < length nbs" for i
    using in_some_local_chain [OF assms(1), of nbs "int i"] seed_scan_cover [OF that]
    by simp
  have each: "(\<exists>p < nprocs. \<exists>s ids.
        initialize_maps (int (length nbs)) p nprocs obst (Some nbs) = Some s \<and>
        seed_dist_map s = Some (List_Map (int (length nbs)) ids) \<and> int i \<in> set ids)
      \<longleftrightarrow> (\<exists>s \<le> i. nbs ! s = - 1)" if "i < length nbs" for i
    using in_some_seed_map [OF assms, of "int (length nbs)" nbs "int i"] chain [OF that]
    by simp
  from each seed_below_all [of nbs]
  have "(\<forall>i < length nbs.
            \<exists>p < nprocs. \<exists>s ids.
               initialize_maps (int (length nbs)) p nprocs obst (Some nbs) = Some s \<and>
               seed_dist_map s = Some (List_Map (int (length nbs)) ids) \<and> int i \<in> set ids)
            \<longleftrightarrow> (nbs = [] \<or> nbs ! 0 = - 1)"
    by simp
  with maps chain each show ?thesis by blast
qed

theorem seed_map_omits_ids_below_first_seed_witness:
  "(\<exists>s. initialize_maps 5 0 1 None (Some [5, - 1, 0, - 1, 3]) = Some s \<and>
        seed_dist_map s = Some (List_Map 5 [3, 4, 1, 2])) \<and>
   int 0 \<notin> set [3, 4, 1, 2] \<and> [5, - 1, 0, - 1, 3 :: int] ! 0 \<noteq> - 1"
proof -
  have np: "(0::nat) < 1" and ob: "(None :: obstruction_map option) = None \<or> None = Some []"
    by simp_all
  have ev: "local_seed_groupings 1 0 [5, - 1, 0, - 1, 3] = Some [[3, 4], [1, 2]]"
    by code_simp
  then have m: "\<exists>s. initialize_maps 5 0 1 None (Some [5, - 1, 0, - 1, 3]) = Some s \<and>
      seed_dist_map s = Some (List_Map 5 [3, 4, 1, 2])"
    by (simp add: initialize_maps_def create_obstruction_dist_map_def create_seed_dist_map_def)
  have ns: "\<not> (\<exists>s \<le> (0::nat). [5, - 1, 0, - 1, 3 :: int] ! s = - 1)" by simp
  note T = seed_map_omits_ids_below_first_seed [OF np ob, of "[5, - 1, 0, - 1, 3]"]
  from conjunct1 [OF conjunct2 [OF conjunct2 [OF T]]]
  have "0 < length [5, - 1, 0, - 1, 3 :: int] \<longrightarrow>
      ((\<exists>p < (1::nat). \<exists>s ids.
          initialize_maps (int (length [5, - 1, 0, - 1, 3 :: int])) p 1 None (Some [5, - 1, 0, - 1, 3]) = Some s \<and>
          seed_dist_map s = Some (List_Map (int (length [5, - 1, 0, - 1, 3 :: int])) ids) \<and> int 0 \<in> set ids)
       \<longleftrightarrow> (\<exists>s \<le> (0::nat). [5, - 1, 0, - 1, 3 :: int] ! s = - 1))"
    by (rule spec)
  with ns
  have "\<not> (\<exists>p < (1::nat). \<exists>s ids. initialize_maps 5 p 1 None (Some [5, - 1, 0, - 1, 3]) = Some s \<and>
      seed_dist_map s = Some (List_Map 5 ids) \<and> int 0 \<in> set ids)"
    by simp
  with m have "int 0 \<notin> set [3, 4, 1, 2 :: int]"
    by (metis less_numeral_extra(1))
  with m show ?thesis by simp
qed

section \<open>Properties of the setup\<close>

subsection \<open>The whitelist check\<close>

lemma fold_check_entry_valid:
  "fst (fold (check_entry D) ps (ok, dp)) \<longleftrightarrow>
     ok \<and> (\<forall>name \<in> fst ` set ps.
             name \<in> set (valid_correlation_params D) \<or> name \<in> set (valid_post_processor_params D))"
proof (induction ps arbitrary: ok dp)
  case Nil
  then show ?case by simp
next
  case (Cons e ps)
  obtain name v where e: "e = (name, v)" by (cases e)
  show ?case
  proof (cases "name \<in> set (valid_correlation_params D) \<or> name \<in> set (valid_post_processor_params D)")
    case True
    then have "check_entry D e (ok, dp) = (ok, setEntry name v dp)"
      by (simp add: check_entry_def e)
    with True show ?thesis by (simp add: Cons.IH e)
  next
    case False
    then have "check_entry D e (ok, dp) = (False, dp)"
      by (simp add: check_entry_def e)
    with False show ?thesis by (auto simp: Cons.IH e)
  qed
qed

lemma get_bool_names:
  "get_bool name def pl = Inr (b, pl') \<Longrightarrow> fst ` set pl' = insert name (fst ` set pl)"
  by (auto simp: get_bool_def split: option.splits param_value.splits
      dest: map_of_SomeD) (force dest: map_of_SomeD)+

lemma get_bool_error: "get_bool name def pl = Inl err \<Longrightarrow> err = Invalid_parameter_type"
  by (auto simp: get_bool_def split: option.splits param_value.splits)

lemma set_params_Some:
  "set_params D analysis_type (Some ps) =
     (case get_bool (use_global_dic D) False ps of
        Inl err \<Rightarrow> Inl err
      | Inr (g, ps1) \<Rightarrow>
          if g \<or> analysis_type = GLOBAL_DIC then Inl Global_DIC_not_enabled
          else (case get_bool (use_tracking_default_params D) False ps1 of
                  Inl err \<Rightarrow> Inl err
                | Inr (t, ps2) \<Rightarrow>
                    if fst (fold (check_entry D) ps2 (True, default_params D t))
                    then Inr (analysis_type, snd (fold (check_entry D) ps2 (True, default_params D t)))
                    else Inl Invalid_parameter))"
  unfolding set_params_def
  by (simp split: sum.split prod.split)

text \<open>
  Claim C9. When the list given to \<^verbatim>\<open>set_params\<close> holds a name that is in neither table,
  \<^verbatim>\<open>set_params\<close> throws. When every name of the list is in a table, and so are the two
  option names that \<^verbatim>\<open>set_params\<close> itself looks up in the list (and thereby enters into
  it), the exception \<^verbatim>\<open>Invalid parameter\<close> is not thrown.
\<close>

theorem set_params_whitelist:
  "((\<exists>name \<in> fst ` set ps. name \<notin> set (valid_correlation_params D) \<and>
                             name \<notin> set (valid_post_processor_params D))
      \<longrightarrow> (\<exists>err. set_params D analysis_type (Some ps) = Inl err)) \<and>
   ((\<forall>name \<in> insert (use_global_dic D) (insert (use_tracking_default_params D) (fst ` set ps)).
        name \<in> set (valid_correlation_params D) \<or> name \<in> set (valid_post_processor_params D))
      \<longrightarrow> set_params D analysis_type (Some ps) \<noteq> Inl Invalid_parameter)"
proof -
  let ?valid = "\<lambda>name. name \<in> set (valid_correlation_params D) \<or> name \<in> set (valid_post_processor_params D)"
  have names: "fst ` set ps2 = insert (use_tracking_default_params D) (insert (use_global_dic D) (fst ` set ps))"
    if "get_bool (use_global_dic D) False ps = Inr (g, ps1)"
      and "get_bool (use_tracking_default_params D) False ps1 = Inr (t, ps2)" for g ps1 t ps2
    using get_bool_names [OF that(1)] get_bool_names [OF that(2)] by simp
  have bad: "\<exists>err. set_params D analysis_type (Some ps) = Inl err"
    if "\<exists>name \<in> fst ` set ps. \<not> ?valid name"
  proof (cases "get_bool (use_global_dic D) False ps")
    case (Inl err)
    then show ?thesis by (simp add: set_params_Some)
  next
    case (Inr r)
    then obtain g ps1 where 1: "get_bool (use_global_dic D) False ps = Inr (g, ps1)"
      by (cases r) simp
    show ?thesis
    proof (cases "get_bool (use_tracking_default_params D) False ps1")
      case (Inl err)
      with 1 show ?thesis by (simp add: set_params_Some)
    next
      case (Inr r2)
      then obtain t ps2 where 2: "get_bool (use_tracking_default_params D) False ps1 = Inr (t, ps2)"
        by (cases r2) simp
      from that names [OF 1 2]
      have "\<not> fst (fold (check_entry D) ps2 (True, default_params D t))"
        unfolding fold_check_entry_valid by blast
      with 1 2 show ?thesis by (simp add: set_params_Some)
    qed
  qed
  have good: "set_params D analysis_type (Some ps) \<noteq> Inl Invalid_parameter"
    if "\<forall>name \<in> insert (use_global_dic D) (insert (use_tracking_default_params D) (fst ` set ps)).
          ?valid name"
  proof (cases "get_bool (use_global_dic D) False ps")
    case (Inl err)
    with get_bool_error [OF Inl] show ?thesis by (simp add: set_params_Some)
  next
    case (Inr r)
    then obtain g ps1 where 1: "get_bool (use_global_dic D) False ps = Inr (g, ps1)"
      by (cases r) simp
    show ?thesis
    proof (cases "get_bool (use_tracking_default_params D) False ps1")
      case (Inl err)
      with 1 get_bool_error [OF Inl] show ?thesis by (simp add: set_params_Some)
    next
      case (Inr r2)
      then obtain t ps2 where 2: "get_bool (use_tracking_default_params D) False ps1 = Inr (t, ps2)"
        by (cases r2) simp
      from that names [OF 1 2]
      have "fst (fold (check_entry D) ps2 (True, default_params D t))"
        unfolding fold_check_entry_valid by blast
      with 1 2 show ?thesis by (simp add: set_params_Some)
    qed
  qed
  from bad good show ?thesis by blast
qed

theorem set_params_whitelist_witness:
  "(\<exists>err. set_params
      \<lparr>use_global_dic = ''use_global_dic'', use_tracking_default_params = ''use_tracking_default_params'',
       valid_correlation_params = [''use_global_dic'', ''use_tracking_default_params'', ''optimization_method''],
       valid_post_processor_params = [''post_process_vsg_strain''],
       default_params = (\<lambda>t. [(''optimization_method'', Other_value)])\<rparr>
      LOCAL_DIC (Some [(''optimisation_method'', Other_value)]) = Inl err) \<and>
   set_params
      \<lparr>use_global_dic = ''use_global_dic'', use_tracking_default_params = ''use_tracking_default_params'',
       valid_correlation_params = [''use_global_dic'', ''use_tracking_default_params'', ''optimization_method''],
       valid_post_processor_params = [''post_process_vsg_strain''],
       default_params = (\<lambda>t. [(''optimization_method'', Other_value)])\<rparr>
      LOCAL_DIC (Some [(''optimization_method'', Other_value)]) \<noteq> Inl Invalid_parameter"
proof -
  let ?D = "\<lparr>use_global_dic = ''use_global_dic'', use_tracking_default_params = ''use_tracking_default_params'',
       valid_correlation_params = [''use_global_dic'', ''use_tracking_default_params'', ''optimization_method''],
       valid_post_processor_params = [''post_process_vsg_strain''],
       default_params = (\<lambda>t. [(''optimization_method'', Other_value)])\<rparr>"
  have bad: "\<exists>name \<in> fst ` set [(''optimisation_method'', Other_value)].
      name \<notin> set (valid_correlation_params ?D) \<and> name \<notin> set (valid_post_processor_params ?D)"
    by simp
  have good: "\<forall>name \<in> insert (use_global_dic ?D) (insert (use_tracking_default_params ?D)
        (fst ` set [(''optimization_method'', Other_value)])).
      name \<in> set (valid_correlation_params ?D) \<or> name \<in> set (valid_post_processor_params ?D)"
    by simp
  from set_params_whitelist [of "[(''optimisation_method'', Other_value)]" ?D LOCAL_DIC] bad
  have 1: "\<exists>err. set_params ?D LOCAL_DIC (Some [(''optimisation_method'', Other_value)]) = Inl err"
    by blast
  from set_params_whitelist [of "[(''optimization_method'', Other_value)]" ?D LOCAL_DIC] good
  have 2: "set_params ?D LOCAL_DIC (Some [(''optimization_method'', Other_value)]) \<noteq> Inl Invalid_parameter"
    by blast
  from 1 2 show ?thesis by blast
qed

section \<open>Properties of the per-point routine\<close>

subsection \<open>Relations between states\<close>

lemmas step_defs = set_field_def logged_def record_failed_step_def record_step_def
  save_off_fields_def Let_def

lemma same_config_refl [simp]: "same_config S S"
  by (simp add: same_config_def)

lemma same_config_trans: "same_config S S1 \<Longrightarrow> same_config S1 S2 \<Longrightarrow> same_config S S2"
  by (simp add: same_config_def)

lemma kept_refl [simp]: "kept S S"
  by (simp add: kept_def)

lemma kept_trans: "kept S S1 \<Longrightarrow> kept S1 S2 \<Longrightarrow> kept S S2"
  by (auto simp: kept_def intro: same_config_trans)

lemma others_kept_refl [simp]: "others_kept gid S S"
  by (simp add: others_kept_def)

lemma others_kept_trans: "others_kept gid S S1 \<Longrightarrow> others_kept gid S1 S2 \<Longrightarrow> others_kept gid S S2"
  by (simp add: others_kept_def)

lemma kept_others: "kept S S' \<Longrightarrow> others_kept gid S S'"
  by (simp add: kept_def others_kept_def)

lemma kept_config: "kept S S' \<Longrightarrow> same_config S S'"
  by (simp add: kept_def)

lemma record_failed_step_frame:
  "same_config S (record_failed_step gid st n S) \<and> others_kept gid S (record_failed_step gid st n S) \<and>
   calls (record_failed_step gid st n S) = calls S"
  by (simp add: same_config_def others_kept_def step_defs)

lemma record_failed_step_effect:
  "site \<noteq> Final_gamma_gate \<Longrightarrow> failed_effect sc gid site S (record_failed_step gid (sc st) n S)"
  unfolding failed_effect_def by (simp add: step_defs) blast

lemma record_failed_step_fields:
  "local_field_value (record_failed_step gid st n S) gid SIGMA_FIELD = - 1"
  "local_field_value (record_failed_step gid st n S) gid MATCH = - 1"
  "local_field_value (record_failed_step gid st n S) gid GAMMA = - 1"
  "local_field_value (record_failed_step gid st n S) gid STATUS_FLAG = real_of_int st"
  "local_field_value (record_failed_step gid st n S) gid ITERATIONS = real_of_int n"
  by (simp_all add: step_defs)

lemma failed_effect_kept:
  "kept S S1 \<Longrightarrow> failed_effect sc gid site S1 S' \<Longrightarrow> failed_effect sc gid site S S'"
  by (simp add: kept_def same_config_def failed_effect_def)

subsection \<open>The steps of the routine\<close>

lemma motion_gate_continue:
  assumes "motion_gate sc C gid S = Inr S1"
  shows "kept S S1 \<and> (\<exists>evs. calls S1 = calls S @ evs \<and> set evs \<subseteq> {(At_motion_test, Flag True)})"
  using assms
  by (auto simp: motion_gate_def motion_detected_def kept_def same_config_def step_defs
      split: option.splits if_splits prod.splits outcome.splits)

lemma motion_gate_exit:
  assumes "motion_gate sc C gid S = Inl (out, S')"
  shows "same_config S S' \<and> others_kept gid S S' \<and> (\<forall>site. out \<noteq> Returned (Failed site)) \<and>
         (\<exists>r. calls S' = calls S @ [(At_motion_test, r)] \<and> (\<forall>e. out = Thrown e \<longrightarrow> r = Exception e) \<and>
              (\<forall>e. r = Exception e \<longrightarrow> out = Thrown e))"
  using assms
  by (auto simp: motion_gate_def motion_detected_def same_config_def others_kept_def step_defs
      split: option.splits if_splits prod.splits outcome.splits)

lemma path_setup_continue:
  assumes "path_setup C gid S = Inr S2"
  shows "kept S S2 \<and> (\<exists>evs. calls S2 = calls S @ evs \<and> set evs \<subseteq> {(At_new_path_initializer, Normal)})"
  using assms
  by (auto simp: path_setup_def kept_def same_config_def step_defs
      split: option.splits if_splits prod.splits outcome.splits)

lemma path_setup_exit:
  assumes "path_setup C gid S = Inl (out, S')"
  shows "kept S S' \<and> (\<exists>e. out = Thrown e \<and> calls S' = calls S @ [(At_new_path_initializer, Exception e)])"
  using assms
  by (auto simp: path_setup_def kept_def same_config_def step_defs
      split: option.splits if_splits prod.splits outcome.splits)

lemma initialize_by_method_result:
  assumes "initialize_by_method C gid site def S = (r, def', S')"
  shows "kept S S' \<and>
         calls S' = calls S @ [(site, case r of Returned st \<Rightarrow> Status st | Thrown e \<Rightarrow> Exception e)] \<and>
         (initialization_method S = USE_PHASE_CORRELATION \<longrightarrow> r = Returned INITIALIZE_SUCCESSFUL)"
  using assms
  by (auto simp: initialize_by_method_def kept_def same_config_def step_defs
      split: if_splits prod.splits outcome.splits)

lemma initial_guess_body_result:
  assumes "initial_guess_body C gid L S = (r, S')"
  shows "kept S S' \<and>
         (\<exists>x. calls S' = calls S @ [(At_initial_guess, x)] \<and>
            (case r of
               Thrown e \<Rightarrow> x = Exception e
             | Returned L' \<Rightarrow>
                 (\<forall>e. x \<noteq> Exception e) \<and> num_iterations L' = num_iterations L \<and>
                 corr_status L' = corr_status L \<and>
                 (\<forall>g. x = Scalar g \<longrightarrow> initial_gamma L' = g \<and> init_status L' = init_status L)))"
proof (cases "path_file_names S gid = None")
  case True
  obtain r1 def' S1 where i: "initialize_by_method C gid At_initial_guess (deformation L) S = (r1, def', S1)"
    by (cases "initialize_by_method C gid At_initial_guess (deformation L) S") auto
  from initialize_by_method_result [OF i] assms True i show ?thesis
    by (cases r1) (auto simp: initial_guess_body_def Let_def)
next
  case False
  with assms show ?thesis
    by (auto simp: initial_guess_body_def kept_def same_config_def logged_def Let_def
        split: prod.splits outcome.splits)
qed

lemma initial_guess_continue:
  assumes "initial_guess sc C gid S = Inr (L, S3)"
  shows "kept S S3 \<and> num_iterations L = - 1 \<and> corr_status L = CORRELATION_FAILED \<and>
         (\<exists>r. calls S3 = calls S @ [(At_initial_guess, r)] \<and> (\<forall>e. r \<noteq> Exception e) \<and>
              (\<forall>g. r = Scalar g \<longrightarrow> initial_gamma L = g \<and> init_status L = INITIALIZE_SUCCESSFUL))"
proof -
  let ?L = "\<lparr>init_status = INITIALIZE_SUCCESSFUL, corr_status = CORRELATION_FAILED,
             num_iterations = - 1, initial_gamma = 0, deformation = (\<lambda>f. 0)\<rparr>"
  obtain r S1 where b: "initial_guess_body C gid ?L S = (r, S1)"
    by (cases "initial_guess_body C gid ?L S") auto
  from assms b have "r = Returned L" "S1 = S3"
    by (auto simp: initial_guess_def split: outcome.splits exn.splits)
  with initial_guess_body_result [OF b] show ?thesis by auto
qed

lemma initial_guess_exit:
  assumes "initial_guess sc C gid S = Inl (out, S')"
  shows "same_config S S' \<and> others_kept gid S S' \<and>
         (\<exists>e. calls S' = calls S @ [(At_initial_guess, Exception e)] \<and>
              (if e = Logic_error
               then out = Returned (Failed Init_exception) \<and>
                    failed_effect sc gid Init_exception S S' \<and>
                    local_field_value S' gid STATUS_FLAG = real_of_int (sc INITIALIZE_FAILED_BY_EXCEPTION)
               else out = Thrown e))"
proof -
  let ?L = "\<lparr>init_status = INITIALIZE_SUCCESSFUL, corr_status = CORRELATION_FAILED,
             num_iterations = - 1, initial_gamma = 0, deformation = (\<lambda>f. 0)\<rparr>"
  obtain r S1 where b: "initial_guess_body C gid ?L S = (r, S1)"
    by (cases "initial_guess_body C gid ?L S") auto
  from assms b obtain e where r: "r = Thrown e"
    by (cases r) (auto simp: initial_guess_def)
  from initial_guess_body_result [OF b] r
  have k: "kept S S1" and c: "calls S1 = calls S @ [(At_initial_guess, Exception e)]"
    by auto
  show ?thesis
  proof (cases e)
    case Logic_error
    with assms b r have out: "out = Returned (Failed Init_exception)"
      and S': "S' = record_failed_step gid (sc INITIALIZE_FAILED_BY_EXCEPTION) (- 1) S1"
      by (simp_all add: initial_guess_def)
    have fe: "failed_effect sc gid Init_exception S S'"
      unfolding S' by (rule failed_effect_kept [OF k], rule record_failed_step_effect) simp
    have fr: "same_config S S'" "others_kept gid S S'"
      using k record_failed_step_frame [of S1 gid "sc INITIALIZE_FAILED_BY_EXCEPTION" "- 1"]
      unfolding S' by (auto intro: same_config_trans others_kept_trans kept_config kept_others)
    have c': "calls S' = calls S @ [(At_initial_guess, Exception Logic_error)]"
      using c Logic_error unfolding S' by (simp add: record_failed_step_frame)
    have st: "local_field_value S' gid STATUS_FLAG = real_of_int (sc INITIALIZE_FAILED_BY_EXCEPTION)"
      unfolding S' by (simp add: record_failed_step_fields)
    from fe fr c' st out Logic_error show ?thesis by auto
  next
    case Runtime_error
    with assms b r have "out = Thrown Runtime_error" "S' = S1"
      by (simp_all add: initial_guess_def)
    with k c Runtime_error show ?thesis
      by (auto intro: kept_config kept_others)
  qed
qed

lemma check_initialization_continue:
  assumes "check_initialization sc gid (L, S) = Inr (L', S')"
  shows "L' = L \<and> S' = S"
  using assms by (auto simp: check_initialization_def split: if_splits)

lemma check_initialization_exit:
  assumes "check_initialization sc gid (L, S) = Inl (out, S')"
  shows "out = Returned (Failed Init_failure) \<and>
         S' = record_failed_step gid (sc INITIALIZE_FAILED) (num_iterations L) S"
  using assms by (auto simp: check_initialization_def split: if_splits)

lemma skip_solve_continue:
  assumes "skip_solve sc C gid (L, S) = Inr (L', S')"
  shows "L' = L \<and> S' = S \<and> skip_solve_flags S gid \<noteq> Some True"
  using assms
  by (auto simp: skip_solve_def Let_def split: if_splits prod.splits outcome.splits)

lemma skip_solve_exit:
  assumes "skip_solve sc C gid (L, S) = Inl (out, S')"
  shows "skip_solve_flags S gid = Some True \<and> same_config S S' \<and> others_kept gid S S' \<and>
         (\<forall>site. out \<noteq> Returned (Failed site)) \<and>
         (\<exists>evs site r. calls S' = calls S @ evs @ [(site, r)] \<and>
              site \<in> {At_skip_sigma, At_skip_gamma} \<and>
              fst ` set evs \<subseteq> {At_skip_sigma, At_skip_gamma} \<and>
              (\<forall>e. out = Thrown e \<longrightarrow> r = Exception e))"
  using assms
  by (auto simp: skip_solve_def same_config_def others_kept_def step_defs
      split: if_splits prod.splits outcome.splits)

lemma initial_gamma_gate_continue:
  assumes "initial_gamma_gate sc gid (L, S) = Inr (L', S')"
  shows "L' = L \<and> S' = S \<and>
         \<not> (initial_gamma_threshold S \<noteq> - 1 \<and> initial_gamma L > initial_gamma_threshold S)"
  using assms by (auto simp: initial_gamma_gate_def split: if_splits)

lemma initial_gamma_gate_exit:
  assumes "initial_gamma_gate sc gid (L, S) = Inl (out, S')"
  shows "out = Returned (Failed Init_gamma_gate) \<and>
         S' = record_failed_step gid (sc INITIALIZE_FAILED) (num_iterations L) S"
  using assms by (auto simp: initial_gamma_gate_def split: if_splits)

lemma guarded_update_continue:
  assumes "guarded_update C fast site (L, S) = Inr (L', S')"
  shows "kept S S' \<and> init_status L' = init_status L \<and> initial_gamma L' = initial_gamma L \<and>
         (\<exists>r. calls S' = calls S @ [(site, r)] \<and>
              (r = Status (corr_status L') \<or>
               r = Exception Logic_error \<and> corr_status L' = CORRELATION_FAILED_BY_EXCEPTION))"
  using assms
  by (auto simp: guarded_update_def kept_def same_config_def step_defs
      split: prod.splits outcome.splits exn.splits)

lemma guarded_update_exit:
  assumes "guarded_update C fast site (L, S) = Inl (out, S')"
  shows "kept S S' \<and> (\<exists>e. out = Thrown e \<and> e \<noteq> Logic_error \<and>
                            calls S' = calls S @ [(site, Exception e)])"
  using assms
  by (auto simp: guarded_update_def kept_def same_config_def step_defs
      split: prod.splits outcome.splits exn.splits)

lemma first_attempt_eq:
  "first_attempt C (L, S) =
     guarded_update C (first_site S = At_first_fast) (first_site S) (L, S)"
  by (cases "optimization_method S") (simp_all add: first_attempt_def first_site_def)

lemma retry_attempt_continue:
  assumes "retry_attempt sc C gid fast (L, S) = Inr (L', S')"
  shows "kept S S' \<and> corr_status L' = CORRELATION_SUCCESSFUL \<and>
         (\<exists>st. calls S' = calls S @ [(At_retry_initial_guess, Status st),
                                     (if fast then At_retry_fast else At_retry_robust,
                                      Status CORRELATION_SUCCESSFUL)] \<and>
               init_status L' = st \<and>
               (initialization_method S = USE_PHASE_CORRELATION \<longrightarrow> st = INITIALIZE_SUCCESSFUL))"
proof -
  obtain r def' S1 where i: "initialize_by_method C gid At_retry_initial_guess (deformation L) S = (r, def', S1)"
    by (metis prod_cases3)
  note ir = initialize_by_method_result [OF i]
  from assms i obtain st where r: "r = Returned st"
    by (cases r) (auto simp: retry_attempt_def)
  let ?site = "if fast then At_retry_fast else At_retry_robust"
  let ?L1 = "L\<lparr>init_status := st, deformation := def'\<rparr>"
  from assms i r obtain L2 S2 where
    g: "guarded_update C fast ?site (?L1, S1) = Inr (L2, S2)"
    and rest: "(if corr_status L2 \<noteq> CORRELATION_SUCCESSFUL
                then Inl (Returned (Failed Optimizer),
                          record_failed_step gid (sc (corr_status L2)) (num_iterations L2) S2)
                else Inr (L2, S2)) = Inr (L', S')"
    by (cases "guarded_update C fast ?site (?L1, S1)")
       (auto simp: retry_attempt_def then_do_def)
  from rest have ok: "corr_status L2 = CORRELATION_SUCCESSFUL" and eq: "L' = L2" "S' = S2"
    by (auto split: if_splits)
  note gu = guarded_update_continue [OF g]
  from gu ok have "calls S2 = calls S1 @ [(?site, Status CORRELATION_SUCCESSFUL)]"
    by auto
  with ir r have "calls S2 = calls S @ [(At_retry_initial_guess, Status st), (?site, Status CORRELATION_SUCCESSFUL)]"
    by simp
  moreover from ir gu have "kept S S2" by (blast intro: kept_trans)
  moreover from gu have "init_status L2 = st" by simp
  moreover from ir r have "initialization_method S = USE_PHASE_CORRELATION \<longrightarrow> st = INITIALIZE_SUCCESSFUL"
    by simp
  ultimately show ?thesis
    using ok eq by blast
qed

lemma retry_attempt_exit:
  assumes "retry_attempt sc C gid fast (L, S) = Inl (out, S')"
  shows "same_config S S' \<and> others_kept gid S S' \<and>
         (\<exists>evs site r. calls S' = calls S @ evs @ [(site, r)] \<and>
            fst ` set evs \<subseteq> {At_retry_initial_guess} \<and>
            (\<forall>e. r = Exception e \<and> \<not> guarded site e \<longrightarrow> out = Thrown e) \<and>
            (case out of
               Thrown e \<Rightarrow> r = Exception e \<and> \<not> guarded site e \<and> kept S S'
             | Returned ep \<Rightarrow>
                 ep = Failed Optimizer \<and> failed_effect sc gid Optimizer S S' \<and>
                 site = (if fast then At_retry_fast else At_retry_robust) \<and>
                 (\<exists>cs. local_field_value S' gid STATUS_FLAG = real_of_int (sc cs) \<and>
                       cs \<noteq> CORRELATION_SUCCESSFUL \<and>
                       (r = Status cs \<or>
                        r = Exception Logic_error \<and> cs = CORRELATION_FAILED_BY_EXCEPTION))))"
proof -
  obtain r def' S1 where i: "initialize_by_method C gid At_retry_initial_guess (deformation L) S = (r, def', S1)"
    by (metis prod_cases3)
  note ir = initialize_by_method_result [OF i]
  show ?thesis
  proof (cases r)
    case (Thrown e)
    with assms i have "out = Thrown e" "S' = S1"
      by (simp_all add: retry_attempt_def)
    with ir Thrown show ?thesis
      by (auto simp: guarded_def intro: kept_config kept_others)
  next
    case (Returned st)
    let ?site = "if fast then At_retry_fast else At_retry_robust"
    let ?L1 = "L\<lparr>init_status := st, deformation := def'\<rparr>"
    from ir Returned have c1: "calls S1 = calls S @ [(At_retry_initial_guess, Status st)]" and k1: "kept S S1"
      by simp_all
    show ?thesis
    proof (cases "guarded_update C fast ?site (?L1, S1)")
      case (Inl x)
      with assms i Returned have x: "x = (out, S')"
        by (simp add: retry_attempt_def then_do_def)
      from guarded_update_exit [OF Inl [unfolded x]] obtain e where
        e: "kept S1 S'" "out = Thrown e" "e \<noteq> Logic_error" "calls S' = calls S1 @ [(?site, Exception e)]"
        by blast
      from k1 e(1) have k: "kept S S'" by (rule kept_trans)
      have "calls S' = calls S @ [(At_retry_initial_guess, Status st)] @ [(?site, Exception e)]"
        using c1 e(4) by simp
      moreover have "fst ` set [(At_retry_initial_guess, Status st)] \<subseteq> {At_retry_initial_guess}"
        by simp
      ultimately show ?thesis
        using k e(2,3) by (auto simp: guarded_def intro: kept_config kept_others)
    next
      case (Inr y)
      obtain L2 S2 where y: "y = (L2, S2)" by (cases y)
      note gu = guarded_update_continue [OF Inr [unfolded y]]
      from assms i Returned Inr y have bad: "corr_status L2 \<noteq> CORRELATION_SUCCESSFUL"
        and out: "out = Returned (Failed Optimizer)"
        and S': "S' = record_failed_step gid (sc (corr_status L2)) (num_iterations L2) S2"
        by (auto simp: retry_attempt_def then_do_def split: if_splits)
      from k1 gu have k2: "kept S S2" by (blast intro: kept_trans)
      have fe: "failed_effect sc gid Optimizer S S'"
        unfolding S' by (rule failed_effect_kept [OF k2], rule record_failed_step_effect) simp
      have fr: "same_config S S'" "others_kept gid S S'"
        using k2 record_failed_step_frame [of S2 gid "sc (corr_status L2)" "num_iterations L2"]
        unfolding S' by (auto intro: same_config_trans others_kept_trans kept_config kept_others)
      from gu obtain r2 where r2: "calls S2 = calls S1 @ [(?site, r2)]"
        "r2 = Status (corr_status L2) \<or>
         r2 = Exception Logic_error \<and> corr_status L2 = CORRELATION_FAILED_BY_EXCEPTION"
        by blast
      have c: "calls S' = calls S @ [(At_retry_initial_guess, Status st)] @ [(?site, r2)]"
        using c1 r2(1) unfolding S' by (simp add: record_failed_step_frame)
      have st: "local_field_value S' gid STATUS_FLAG = real_of_int (sc (corr_status L2))"
        unfolding S' by (simp add: record_failed_step_fields)
      have g: "\<forall>e. r2 = Exception e \<and> \<not> guarded ?site e \<longrightarrow> out = Thrown e"
        using r2(2) by (auto simp: guarded_def)
      show ?thesis
        using fr fe c st bad r2(2) out g
        by (intro conjI exI [of _ "[(At_retry_initial_guess, Status st)]"] exI [of _ ?site] exI [of _ r2])
           (auto simp: guarded_def)
    qed
  qed
qed

lemma second_attempt_continue:
  assumes "second_attempt sc C gid (L, S) = Inr (L', S')"
  shows "kept S S' \<and> corr_status L' = CORRELATION_SUCCESSFUL \<and>
         (corr_status L = CORRELATION_SUCCESSFUL \<and> L' = L \<and> S' = S \<or>
          corr_status L \<noteq> CORRELATION_SUCCESSFUL \<and>
          (optimization_method S = GRADIENT_BASED_THEN_SIMPLEX \<or>
           optimization_method S = SIMPLEX_THEN_GRADIENT_BASED) \<and>
          retry_attempt sc C gid (optimization_method S = SIMPLEX_THEN_GRADIENT_BASED) (L, S)
            = Inr (L', S'))"
proof (cases "corr_status L = CORRELATION_SUCCESSFUL")
  case True
  with assms show ?thesis by (simp add: second_attempt_def)
next
  case False
  with assms have m: "optimization_method S = GRADIENT_BASED_THEN_SIMPLEX \<or>
      optimization_method S = SIMPLEX_THEN_GRADIENT_BASED"
    by (cases "optimization_method S") (simp_all add: second_attempt_def)
  with assms False
  have r: "retry_attempt sc C gid (optimization_method S = SIMPLEX_THEN_GRADIENT_BASED) (L, S) = Inr (L', S')"
    by (auto simp: second_attempt_def)
  from retry_attempt_continue [OF r] False m r show ?thesis by blast
qed

lemma second_attempt_exit:
  assumes "second_attempt sc C gid (L, S) = Inl (out, S')"
  shows "corr_status L \<noteq> CORRELATION_SUCCESSFUL \<and>
         ((optimization_method S = SIMPLEX \<or> optimization_method S = GRADIENT_BASED) \<and>
          out = Returned (Failed Optimizer) \<and>
          S' = record_failed_step gid (sc (corr_status L)) (num_iterations L) S \<or>
          (optimization_method S = GRADIENT_BASED_THEN_SIMPLEX \<or>
           optimization_method S = SIMPLEX_THEN_GRADIENT_BASED) \<and>
          retry_attempt sc C gid (optimization_method S = SIMPLEX_THEN_GRADIENT_BASED) (L, S)
            = Inl (out, S'))"
  using assms
  by (cases "optimization_method S") (auto simp: second_attempt_def split: if_splits)

lemma final_quality_continue:
  assumes "final_quality C (L, S) = Inr (gam, sig, L', S')"
  shows "kept S S' \<and> L' = L \<and> calls S' = calls S @ [(At_gamma, Scalar gam), (At_sigma, Scalar sig)]"
  using assms
  by (auto simp: final_quality_def kept_def same_config_def step_defs
      split: prod.splits outcome.splits)

lemma final_quality_exit:
  assumes "final_quality C (L, S) = Inl (out, S')"
  shows "kept S S' \<and>
         (\<exists>evs site e. out = Thrown e \<and> calls S' = calls S @ evs @ [(site, Exception e)] \<and>
            site \<in> {At_gamma, At_sigma} \<and> fst ` set evs \<subseteq> {At_gamma})"
  using assms
  by (auto simp: final_quality_def kept_def same_config_def step_defs
      split: prod.splits outcome.splits)

lemma final_gamma_gate_continue:
  assumes "final_gamma_gate sc gid (gam, sig, L, S) = Inr Q"
  shows "Q = (gam, sig, L, S)"
  using assms by (auto simp: final_gamma_gate_def split: if_splits)

lemma final_gamma_gate_exit:
  assumes "final_gamma_gate sc gid (gam, sig, L, S) = Inl (out, S')"
  shows "out = Returned (Failed Final_gamma_gate) \<and> same_config S S' \<and> others_kept gid S S' \<and>
         calls S' = calls S \<and> failed_effect sc gid Final_gamma_gate S S'"
  using assms
  unfolding final_gamma_gate_def failed_effect_def same_config_def others_kept_def
  by (auto simp: step_defs split: if_splits)

lemma path_distance_gate_continue:
  assumes "path_distance_gate sc C gid (gam, sig, L, S) = Inr (gam', sig', L', S')"
  shows "gam' = gam \<and> sig' = sig \<and> L' = L \<and> kept S S' \<and>
         (\<exists>evs. calls S' = calls S @ evs \<and> fst ` set evs \<subseteq> {At_closest_triad} \<and>
                (\<forall>ev \<in> set evs. \<forall>e. snd ev \<noteq> Exception e))"
  using assms
  by (auto simp: path_distance_gate_def kept_def same_config_def step_defs
      split: if_splits prod.splits outcome.splits)

lemma path_distance_gate_exit:
  assumes "path_distance_gate sc C gid (gam, sig, L, S) = Inl (out, S')"
  shows "same_config S S' \<and> others_kept gid S S' \<and>
         (\<exists>r. calls S' = calls S @ [(At_closest_triad, r)] \<and>
            (case out of
               Thrown e \<Rightarrow> r = Exception e \<and> kept S S'
             | Returned ep \<Rightarrow> ep = Failed Path_distance_gate \<and> (\<forall>e. r \<noteq> Exception e) \<and>
                                failed_effect sc gid Path_distance_gate S S'))"
  using assms
  unfolding path_distance_gate_def failed_effect_def same_config_def others_kept_def kept_def
  by (auto simp: step_defs split: if_splits prod.splits outcome.splits)

lemma commit_result:
  assumes "commit sc C gid (gam, sig, L, S) = (out, S')"
  shows "same_config S S' \<and> others_kept gid S S' \<and>
         local_field_value S' gid STATUS_FLAG = real_of_int (sc (init_status L)) \<and>
         local_field_value S' gid ITERATIONS = real_of_int (num_iterations L) \<and>
         (\<exists>evs. calls S' = calls S @ evs \<and> fst ` set evs \<subseteq> {At_turn_on_pixels} \<and>
            (case out of
               Thrown e \<Rightarrow> evs = [(At_turn_on_pixels, Exception e)]
             | Returned ep \<Rightarrow> ep = Succeeded \<and> (\<forall>ev \<in> set evs. \<forall>e. snd ev \<noteq> Exception e)))"
  using assms
  unfolding commit_def same_config_def others_kept_def
  by (auto simp: step_defs split: if_splits prod.splits outcome.splits)

lemma finish_cases:
  assumes "finish sc C gid (L, S) = (out, S')"
  obtains
    (quality) "final_quality C (L, S) = Inl (out, S')"
  | (gamma) gam sig S1 where "final_quality C (L, S) = Inr (gam, sig, L, S1)"
      "final_gamma_gate sc gid (gam, sig, L, S1) = Inl (out, S')"
  | (distance) gam sig S1 where "final_quality C (L, S) = Inr (gam, sig, L, S1)"
      "path_distance_gate sc C gid (gam, sig, L, S1) = Inl (out, S')"
  | (commit) gam sig S1 S2 where "final_quality C (L, S) = Inr (gam, sig, L, S1)"
      "path_distance_gate sc C gid (gam, sig, L, S1) = Inr (gam, sig, L, S2)"
      "commit sc C gid (gam, sig, L, S2) = (out, S')"
proof (cases "final_quality C (L, S)")
  case (Inl x)
  with assms have "x = (out, S')" by (simp add: finish_def then_do_def)
  with Inl quality show ?thesis by simp
next
  case (Inr Q)
  obtain gam sig L1 S1 where Q: "Q = (gam, sig, L1, S1)" by (cases Q)
  from final_quality_continue [OF Inr [unfolded Q]] have L1: "L1 = L" by simp
  note q = Inr [unfolded Q L1]
  show ?thesis
  proof (cases "final_gamma_gate sc gid (gam, sig, L, S1)")
    case (Inl x)
    with assms q have "x = (out, S')" by (simp add: finish_def then_do_def)
    with Inl q gamma show ?thesis by simp
  next
    case g: (Inr Q2)
    from final_gamma_gate_continue [OF g] have Q2: "Q2 = (gam, sig, L, S1)" .
    show ?thesis
    proof (cases "path_distance_gate sc C gid (gam, sig, L, S1)")
      case (Inl x)
      with assms q g Q2 have "x = (out, S')" by (simp add: finish_def then_do_def)
      with Inl q distance show ?thesis by simp
    next
      case p: (Inr Q3)
      obtain gam3 sig3 L3 S3 where Q3: "Q3 = (gam3, sig3, L3, S3)" by (cases Q3)
      from path_distance_gate_continue [OF p [unfolded Q3]]
      have eq: "gam3 = gam" "sig3 = sig" "L3 = L" by simp_all
      from assms q g Q2 p Q3 eq have "commit sc C gid (gam, sig, L, S3) = (out, S')"
        by (simp add: finish_def then_do_def)
      with q p Q3 eq commit show ?thesis by simp
    qed
  qed
qed

lemma advanced_refl [simp]: "advanced S S"
  by (simp add: advanced_def)

lemma advanced_trans: "advanced S S1 \<Longrightarrow> advanced S1 S2 \<Longrightarrow> advanced S S2"
  by (auto simp: advanced_def intro: kept_trans)

lemma set_up_advanced: "set_up S S' \<Longrightarrow> advanced S S'"
  by (auto simp: set_up_def advanced_def)

lemma guessed_advanced: "guessed S L S' \<Longrightarrow> advanced S S'"
  by (auto simp: guessed_def advanced_def)

lemma exit_summary_advanced:
  assumes "advanced S S1" and "exit_summary sc gid S1 out S'"
  shows "exit_summary sc gid S out S'"
proof -
  from assms(1) obtain pre where k: "kept S S1" and pre: "calls S1 = calls S @ pre"
    by (auto simp: advanced_def)
  from assms(2) obtain evs where e: "same_config S1 S'" "others_kept gid S1 S'"
    "calls S' = calls S1 @ evs"
    "\<forall>e. out = Thrown e \<longrightarrow> evs \<noteq> [] \<and> snd (last evs) = Exception e \<and> \<not> guarded (fst (last evs)) e"
    "\<forall>site. out = Returned (Failed site) \<longrightarrow> failed_effect sc gid site S1 S'"
    by (auto simp: exit_summary_def)
  have "calls S' = calls S @ (pre @ evs)" using pre e(3) by simp
  moreover have "\<forall>e. out = Thrown e \<longrightarrow>
      pre @ evs \<noteq> [] \<and> snd (last (pre @ evs)) = Exception e \<and> \<not> guarded (fst (last (pre @ evs))) e"
    using e(4) by auto
  moreover have "same_config S S'" "others_kept gid S S'"
    using k e(1,2) by (auto intro: same_config_trans others_kept_trans kept_config kept_others)
  moreover have "\<forall>site. out = Returned (Failed site) \<longrightarrow> failed_effect sc gid site S S'"
    using e(5) k by (auto intro: failed_effect_kept)
  ultimately show ?thesis
    unfolding exit_summary_def by blast
qed

lemma exit_summaryI:
  assumes "same_config S S'" and "others_kept gid S S'" and "calls S' = calls S @ evs"
    and "\<And>e. out = Thrown e \<Longrightarrow>
           evs \<noteq> [] \<and> snd (last evs) = Exception e \<and> \<not> guarded (fst (last evs)) e"
    and "\<And>site. out = Returned (Failed site) \<Longrightarrow> failed_effect sc gid site S S'"
  shows "exit_summary sc gid S out S'"
  unfolding exit_summary_def using assms by blast

lemma exit_summary_failed_step:
  assumes "site \<noteq> Final_gamma_gate"
  shows "exit_summary sc gid S (Returned (Failed site)) (record_failed_step gid (sc st) n S)"
proof (rule exit_summaryI [where evs = "[]"])
  show "failed_effect sc gid site' S (record_failed_step gid (sc st) n S)"
    if "Returned (Failed site) = Returned (Failed site')" for site'
    using that assms record_failed_step_effect [of site sc gid S st n] by simp
qed (simp_all add: record_failed_step_frame)

lemma exit_summary_thrown:
  assumes "kept S S'" and "calls S' = calls S @ evs @ [(site, Exception e)]" and "\<not> guarded site e"
  shows "exit_summary sc gid S (Thrown e) S'"
proof (rule exit_summaryI [where evs = "evs @ [(site, Exception e)]"])
  show "same_config S S'" "others_kept gid S S'"
    using assms(1) by (auto intro: kept_config kept_others)
  show "calls S' = calls S @ evs @ [(site, Exception e)]" by fact
  show "evs @ [(site, Exception e)] \<noteq> [] \<and> snd (last (evs @ [(site, Exception e)])) = Exception e' \<and>
        \<not> guarded (fst (last (evs @ [(site, Exception e)]))) e'" if "Thrown e = Thrown e'" for e'
    using that assms(3) by simp
qed simp

lemma motion_gate_exit_summary:
  assumes "motion_gate sc C gid S = Inl (out, S')"
  shows "exit_summary sc gid S out S'"
proof -
  from motion_gate_exit [OF assms] obtain r where
    f: "same_config S S'" "others_kept gid S S'" "\<forall>site. out \<noteq> Returned (Failed site)"
    and c: "calls S' = calls S @ [(At_motion_test, r)]"
    and r: "\<forall>e. out = Thrown e \<longrightarrow> r = Exception e"
    by blast
  show ?thesis
  proof (rule exit_summaryI [where evs = "[(At_motion_test, r)]"])
    show "[(At_motion_test, r)] \<noteq> [] \<and> snd (last [(At_motion_test, r)]) = Exception e \<and>
          \<not> guarded (fst (last [(At_motion_test, r)])) e" if "out = Thrown e" for e
      using that r by (simp add: guarded_def)
    show "failed_effect sc gid site S S'" if "out = Returned (Failed site)" for site
      using that f(3) by simp
  qed (use f c in simp_all)
qed

lemma path_setup_exit_summary:
  assumes "path_setup C gid S = Inl (out, S')"
  shows "exit_summary sc gid S out S'"
proof -
  from path_setup_exit [OF assms] obtain e where
    "kept S S'" "out = Thrown e" "calls S' = calls S @ [] @ [(At_new_path_initializer, Exception e)]"
    by auto
  then show ?thesis
    using exit_summary_thrown [of S S' "[]" At_new_path_initializer e] by (simp add: guarded_def)
qed

lemma initial_guess_exit_summary:
  assumes "initial_guess sc C gid S = Inl (out, S')"
  shows "exit_summary sc gid S out S'"
proof -
  from initial_guess_exit [OF assms] obtain e where
    f: "same_config S S'" "others_kept gid S S'"
    and c: "calls S' = calls S @ [(At_initial_guess, Exception e)]"
    and l: "e = Logic_error \<Longrightarrow> out = Returned (Failed Init_exception) \<and>
              failed_effect sc gid Init_exception S S'"
    and n: "e \<noteq> Logic_error \<Longrightarrow> out = Thrown e"
    by (auto split: if_splits)
  show ?thesis
  proof (rule exit_summaryI [where evs = "[(At_initial_guess, Exception e)]"])
    show "[(At_initial_guess, Exception e)] \<noteq> [] \<and>
          snd (last [(At_initial_guess, Exception e)]) = Exception e' \<and>
          \<not> guarded (fst (last [(At_initial_guess, Exception e)])) e'" if "out = Thrown e'" for e'
      using that l n by (cases "e = Logic_error") (auto simp: guarded_def)
    show "failed_effect sc gid site S S'" if "out = Returned (Failed site)" for site
      using that l n by (cases "e = Logic_error") auto
  qed (use f c in simp_all)
qed

lemma skip_solve_exit_summary:
  assumes "skip_solve sc C gid (L, S) = Inl (out, S')"
  shows "exit_summary sc gid S out S'"
proof -
  from skip_solve_exit [OF assms] obtain evs site r where
    f: "same_config S S'" "others_kept gid S S'" "\<forall>site. out \<noteq> Returned (Failed site)"
    and c: "calls S' = calls S @ evs @ [(site, r)]"
    and s: "site \<in> {At_skip_sigma, At_skip_gamma}"
    and r: "\<forall>e. out = Thrown e \<longrightarrow> r = Exception e"
    by blast
  show ?thesis
  proof (rule exit_summaryI [where evs = "evs @ [(site, r)]"])
    show "evs @ [(site, r)] \<noteq> [] \<and> snd (last (evs @ [(site, r)])) = Exception e \<and>
          \<not> guarded (fst (last (evs @ [(site, r)]))) e" if "out = Thrown e" for e
      using that r s by (auto simp: guarded_def)
    show "failed_effect sc gid site' S S'" if "out = Returned (Failed site')" for site'
      using that f(3) by simp
  qed (use f c in simp_all)
qed

lemma first_attempt_exit_summary:
  assumes "first_attempt C (L, S) = Inl (out, S')"
  shows "exit_summary sc gid S out S'"
proof -
  from guarded_update_exit [OF assms [unfolded first_attempt_eq]] obtain e where
    "kept S S'" "out = Thrown e" "e \<noteq> Logic_error"
    "calls S' = calls S @ [] @ [(first_site S, Exception e)]"
    by auto
  then show ?thesis
    using exit_summary_thrown [of S S' "[]" "first_site S" e] by (simp add: guarded_def)
qed

lemma retry_attempt_exit_summary:
  assumes "retry_attempt sc C gid fast (L, S) = Inl (out, S')"
  shows "exit_summary sc gid S out S'"
proof -
  from retry_attempt_exit [OF assms] obtain evs site r where
    f: "same_config S S'" "others_kept gid S S'"
    and c: "calls S' = calls S @ evs @ [(site, r)]"
    and o: "case out of
               Thrown e \<Rightarrow> r = Exception e \<and> \<not> guarded site e \<and> kept S S'
             | Returned ep \<Rightarrow> ep = Failed Optimizer \<and> failed_effect sc gid Optimizer S S'"
    by (cases out) auto
  show ?thesis
  proof (rule exit_summaryI [where evs = "evs @ [(site, r)]"])
    show "evs @ [(site, r)] \<noteq> [] \<and> snd (last (evs @ [(site, r)])) = Exception e \<and>
          \<not> guarded (fst (last (evs @ [(site, r)]))) e" if "out = Thrown e" for e
      using that o by simp
    show "failed_effect sc gid site' S S'" if "out = Returned (Failed site')" for site'
      using that o by simp
  qed (use f c in simp_all)
qed

lemma second_attempt_exit_summary:
  assumes "second_attempt sc C gid (L, S) = Inl (out, S')"
  shows "exit_summary sc gid S out S'"
proof -
  from second_attempt_exit [OF assms]
  consider "out = Returned (Failed Optimizer)"
      "S' = record_failed_step gid (sc (corr_status L)) (num_iterations L) S"
    | "retry_attempt sc C gid (optimization_method S = SIMPLEX_THEN_GRADIENT_BASED) (L, S)
         = Inl (out, S')"
    by blast
  then show ?thesis
  proof cases
    case 1
    then show ?thesis
      using exit_summary_failed_step [of Optimizer sc gid S "corr_status L" "num_iterations L"]
      by simp
  next
    case 2
    then show ?thesis by (rule retry_attempt_exit_summary)
  qed
qed

lemma finish_exit_summary:
  assumes "finish sc C gid (L, S) = (out, S')"
  shows "exit_summary sc gid S out S'"
  using assms
proof (cases rule: finish_cases)
  case quality
  from final_quality_exit [OF quality] obtain evs site e where
    "kept S S'" "out = Thrown e" "calls S' = calls S @ evs @ [(site, Exception e)]"
    "site \<in> {At_gamma, At_sigma}" by blast
  then show ?thesis
    using exit_summary_thrown [of S S' evs site e] by (auto simp: guarded_def)
next
  case (gamma gam sig S1)
  from final_quality_continue [OF gamma(1)] have a: "advanced S S1"
    by (auto simp: advanced_def)
  from final_gamma_gate_exit [OF gamma(2)] have "exit_summary sc gid S1 out S'"
    by (intro exit_summaryI [where evs = "[]"]) auto
  with a show ?thesis by (rule exit_summary_advanced)
next
  case (distance gam sig S1)
  from final_quality_continue [OF distance(1)] have a: "advanced S S1"
    by (auto simp: advanced_def)
  from path_distance_gate_exit [OF distance(2)] obtain r where
    f: "same_config S1 S'" "others_kept gid S1 S'" "calls S' = calls S1 @ [(At_closest_triad, r)]"
    and o: "case out of
               Thrown e \<Rightarrow> r = Exception e \<and> kept S1 S'
             | Returned ep \<Rightarrow> ep = Failed Path_distance_gate \<and> (\<forall>e. r \<noteq> Exception e) \<and>
                                failed_effect sc gid Path_distance_gate S1 S'"
    by blast
  have "exit_summary sc gid S1 out S'"
  proof (rule exit_summaryI [where evs = "[(At_closest_triad, r)]"])
    show "[(At_closest_triad, r)] \<noteq> [] \<and> snd (last [(At_closest_triad, r)]) = Exception e \<and>
          \<not> guarded (fst (last [(At_closest_triad, r)])) e" if "out = Thrown e" for e
      using that o by (simp add: guarded_def)
    show "failed_effect sc gid site S1 S'" if "out = Returned (Failed site)" for site
      using that o by simp
  qed (use f in simp_all)
  with a show ?thesis by (rule exit_summary_advanced)
next
  case (commit gam sig S1 S2)
  from final_quality_continue [OF commit(1)] have "advanced S S1"
    by (auto simp: advanced_def)
  moreover from path_distance_gate_continue [OF commit(2)] have "advanced S1 S2"
    by (auto simp: advanced_def)
  ultimately have a: "advanced S S2" by (rule advanced_trans)
  from commit_result [OF commit(3)] obtain evs where
    f: "same_config S2 S'" "others_kept gid S2 S'" "calls S' = calls S2 @ evs"
    and o: "case out of
               Thrown e \<Rightarrow> evs = [(At_turn_on_pixels, Exception e)]
             | Returned ep \<Rightarrow> ep = Succeeded"
    by (cases out) auto
  have "exit_summary sc gid S2 out S'"
  proof (rule exit_summaryI [where evs = evs])
    show "evs \<noteq> [] \<and> snd (last evs) = Exception e \<and> \<not> guarded (fst (last evs)) e"
      if "out = Thrown e" for e
      using that o by (simp add: guarded_def)
    show "failed_effect sc gid site S2 S'" if "out = Returned (Failed site)" for site
      using that o by simp
  qed (use f in simp_all)
  with a show ?thesis by (rule exit_summary_advanced)
qed

subsection \<open>The places where a pass ends\<close>

lemma routine_cases [consumes 1]:
  assumes "generic_correlation_routine sc C S = (out, S')"
  obtains
    (motion) "motion_gate sc C (correlation_point_global_id C) S = Inl (out, S')"
  | (path) S1 where "motion_gate sc C (correlation_point_global_id C) S = Inr S1"
      "path_setup C (correlation_point_global_id C) S1 = Inl (out, S')"
  | (init) S2 where "set_up S S2"
      "initial_guess sc C (correlation_point_global_id C) S2 = Inl (out, S')"
  | (check) L S3 where "guessed S L S3"
      "check_initialization sc (correlation_point_global_id C) (L, S3) = Inl (out, S')"
  | (skip) L S3 where "guessed S L S3"
      "skip_solve sc C (correlation_point_global_id C) (L, S3) = Inl (out, S')"
  | (gate) L S3 where "guessed S L S3"
      "skip_solve_flags S3 (correlation_point_global_id C) \<noteq> Some True"
      "initial_gamma_gate sc (correlation_point_global_id C) (L, S3) = Inl (out, S')"
  | (first) L S3 where "guessed S L S3"
      "skip_solve_flags S3 (correlation_point_global_id C) \<noteq> Some True"
      "\<not> (initial_gamma_threshold S3 \<noteq> - 1 \<and> initial_gamma L > initial_gamma_threshold S3)"
      "first_attempt C (L, S3) = Inl (out, S')"
  | (second) L S3 L4 S4 where "guessed S L S3"
      "skip_solve_flags S3 (correlation_point_global_id C) \<noteq> Some True"
      "\<not> (initial_gamma_threshold S3 \<noteq> - 1 \<and> initial_gamma L > initial_gamma_threshold S3)"
      "first_attempt C (L, S3) = Inr (L4, S4)"
      "second_attempt sc C (correlation_point_global_id C) (L4, S4) = Inl (out, S')"
  | (finish) L S3 L4 S4 L5 S5 where "guessed S L S3"
      "skip_solve_flags S3 (correlation_point_global_id C) \<noteq> Some True"
      "\<not> (initial_gamma_threshold S3 \<noteq> - 1 \<and> initial_gamma L > initial_gamma_threshold S3)"
      "first_attempt C (L, S3) = Inr (L4, S4)"
      "second_attempt sc C (correlation_point_global_id C) (L4, S4) = Inr (L5, S5)"
      "finish sc C (correlation_point_global_id C) (L5, S5) = (out, S')"
proof -
  let ?gid = "correlation_point_global_id C"
  note R = assms [unfolded generic_correlation_routine_def Let_def then_do_def]
  show ?thesis
  proof (cases "motion_gate sc C ?gid S")
    case (Inl x)
    with R have "x = (out, S')" by simp
    with Inl motion show ?thesis by simp
  next
    case m: (Inr S1)
    note mc = motion_gate_continue [OF m]
    show ?thesis
    proof (cases "path_setup C ?gid S1")
      case (Inl x)
      with R m have "x = (out, S')" by simp
      with Inl m path show ?thesis by simp
    next
      case p: (Inr S2)
      note pc = path_setup_continue [OF p]
      from mc obtain e1 where k1: "kept S S1" and c1: "calls S1 = calls S @ e1"
        and s1: "set e1 \<subseteq> {(At_motion_test, Flag True)}" by blast
      from pc obtain e2 where k12: "kept S1 S2" and c12: "calls S2 = calls S1 @ e2"
        and s2: "set e2 \<subseteq> {(At_new_path_initializer, Normal)}" by blast
      from k1 k12 have k2: "kept S S2" by (rule kept_trans)
      from c1 c12 have c2: "calls S2 = calls S @ e1 @ e2" by simp
      note e12 = s1 s2
      from e12 have "set (e1 @ e2) \<subseteq> {(At_motion_test, Flag True), (At_new_path_initializer, Normal)}"
        by auto
      with k2 c2 have su: "set_up S S2"
        unfolding set_up_def by (metis append.assoc)
      show ?thesis
      proof (cases "initial_guess sc C ?gid S2")
        case (Inl x)
        with R m p have "x = (out, S')" by simp
        with Inl su init show ?thesis by simp
      next
        case i: (Inr LS)
        obtain L S3 where LS: "LS = (L, S3)" by (cases LS)
        note ic = initial_guess_continue [OF i [unfolded LS]]
        from ic obtain r where r: "calls S3 = calls S2 @ [(At_initial_guess, r)]" "\<forall>e. r \<noteq> Exception e"
          "\<forall>g. r = Scalar g \<longrightarrow> initial_gamma L = g \<and> init_status L = INITIALIZE_SUCCESSFUL"
          by blast
        have gu: "guessed S L S3"
          unfolding guessed_def
        proof (intro conjI exI [of _ "e1 @ e2"] exI [of _ r])
          show "kept S S3" using k2 ic by (blast intro: kept_trans)
          show "calls S3 = calls S @ (e1 @ e2) @ [(At_initial_guess, r)]"
            using c2 r(1) by simp
          show "set (e1 @ e2) \<subseteq> {(At_motion_test, Flag True), (At_new_path_initializer, Normal)}"
            using e12 by auto
        qed (use ic r in simp_all)
        show ?thesis
        proof (cases "check_initialization sc ?gid (L, S3)")
          case (Inl x)
          with R m p i LS have "x = (out, S')" by simp
          with Inl gu check show ?thesis by simp
        next
          case c: (Inr LS1)
          from check_initialization_continue [of sc ?gid L S3 "fst LS1" "snd LS1"] c
          have LS1: "LS1 = (L, S3)" by (cases LS1) simp
          show ?thesis
          proof (cases "skip_solve sc C ?gid (L, S3)")
            case (Inl x)
            with R m p i LS c LS1 have "x = (out, S')" by simp
            with Inl gu skip show ?thesis by simp
          next
            case s: (Inr LS2)
            from skip_solve_continue [of sc C ?gid L S3 "fst LS2" "snd LS2"] s
            have LS2: "LS2 = (L, S3)" and fl: "skip_solve_flags S3 ?gid \<noteq> Some True"
              by (cases LS2; simp)+
            show ?thesis
            proof (cases "initial_gamma_gate sc ?gid (L, S3)")
              case (Inl x)
              with R m p i LS c LS1 s LS2 have "x = (out, S')" by simp
              with Inl gu fl gate show ?thesis by simp
            next
              case g: (Inr LS3)
              from initial_gamma_gate_continue [of sc ?gid L S3 "fst LS3" "snd LS3"] g
              have LS3: "LS3 = (L, S3)"
                and ng: "\<not> (initial_gamma_threshold S3 \<noteq> - 1 \<and> initial_gamma L > initial_gamma_threshold S3)"
                by (cases LS3; simp)+
              show ?thesis
              proof (cases "first_attempt C (L, S3)")
                case (Inl x)
                with R m p i LS c LS1 s LS2 g LS3 have "x = (out, S')" by simp
                with Inl gu fl ng first show ?thesis by simp
              next
                case f: (Inr LS4)
                obtain L4 S4 where LS4: "LS4 = (L4, S4)" by (cases LS4)
                show ?thesis
                proof (cases "second_attempt sc C ?gid (L4, S4)")
                  case (Inl x)
                  with R m p i LS c LS1 s LS2 g LS3 f LS4 have "x = (out, S')" by simp
                  with Inl gu fl ng f LS4 second show ?thesis by simp
                next
                  case t: (Inr LS5)
                  obtain L5 S5 where LS5: "LS5 = (L5, S5)" by (cases LS5)
                  from R m p i LS c LS1 s LS2 g LS3 f LS4 t LS5
                  have "finish sc C ?gid (L5, S5) = (out, S')" by simp
                  with gu fl ng f LS4 t LS5 finish show ?thesis by simp
                qed
              qed
            qed
          qed
        qed
      qed
    qed
  qed
qed

lemma first_attempt_advanced:
  assumes "first_attempt C (L, S) = Inr (L', S')"
  shows "advanced S S'"
  using guarded_update_continue [OF assms [unfolded first_attempt_eq]]
  by (auto simp: advanced_def)

lemma second_attempt_advanced:
  assumes "second_attempt sc C gid (L, S) = Inr (L', S')"
  shows "advanced S S'"
proof -
  from second_attempt_continue [OF assms]
  consider "S' = S"
    | "retry_attempt sc C gid (optimization_method S = SIMPLEX_THEN_GRADIENT_BASED) (L, S) = Inr (L', S')"
    by blast
  then show ?thesis
  proof cases
    case 1
    then show ?thesis by simp
  next
    case 2
    from retry_attempt_continue [OF 2] show ?thesis
      by (auto simp: advanced_def)
  qed
qed

lemma pass_summary:
  assumes "generic_correlation_routine sc C S = (out, S')"
  shows "exit_summary sc (correlation_point_global_id C) S out S'"
  using assms
proof (cases rule: routine_cases)
  case motion
  then show ?thesis by (rule motion_gate_exit_summary)
next
  case (path S1)
  from motion_gate_continue [OF path(1)] have "advanced S S1"
    by (auto simp: advanced_def)
  then show ?thesis
    using path_setup_exit_summary [OF path(2)] by (rule exit_summary_advanced)
next
  case (init S2)
  from set_up_advanced [OF init(1)] initial_guess_exit_summary [OF init(2)]
  show ?thesis by (rule exit_summary_advanced)
next
  case (check L S3)
  from check_initialization_exit [OF check(2)]
  have "exit_summary sc (correlation_point_global_id C) S3 out S'"
    using exit_summary_failed_step [of Init_failure sc "correlation_point_global_id C" S3
        INITIALIZE_FAILED "num_iterations L"]
    by simp
  with guessed_advanced [OF check(1)] show ?thesis by (rule exit_summary_advanced)
next
  case (skip L S3)
  from guessed_advanced [OF skip(1)] skip_solve_exit_summary [OF skip(2)]
  show ?thesis by (rule exit_summary_advanced)
next
  case (gate L S3)
  from initial_gamma_gate_exit [OF gate(3)]
  have "exit_summary sc (correlation_point_global_id C) S3 out S'"
    using exit_summary_failed_step [of Init_gamma_gate sc "correlation_point_global_id C" S3
        INITIALIZE_FAILED "num_iterations L"]
    by simp
  with guessed_advanced [OF gate(1)] show ?thesis by (rule exit_summary_advanced)
next
  case (first L S3)
  from guessed_advanced [OF first(1)] first_attempt_exit_summary [OF first(4)]
  show ?thesis by (rule exit_summary_advanced)
next
  case (second L S3 L4 S4)
  from guessed_advanced [OF second(1)] first_attempt_advanced [OF second(4)]
  have "advanced S S4" by (rule advanced_trans)
  then show ?thesis
    using second_attempt_exit_summary [OF second(5)] by (rule exit_summary_advanced)
next
  case (finish L S3 L4 S4 L5 S5)
  from guessed_advanced [OF finish(1)] first_attempt_advanced [OF finish(4)]
  have "advanced S S4" by (rule advanced_trans)
  from this second_attempt_advanced [OF finish(5)] have "advanced S S5" by (rule advanced_trans)
  then show ?thesis
    using finish_exit_summary [OF finish(6)] by (rule exit_summary_advanced)
qed

lemma check_initialization_failed:
  assumes "check_initialization sc gid (L, S) = Inl (out, S')"
  shows "init_status L = INITIALIZE_FAILED"
  using assms by (auto simp: check_initialization_def split: if_splits)

lemma finish_trace:
  assumes "finish sc C gid (L, S) = (out, S')"
  shows "\<exists>evs. calls S' = calls S @ evs \<and> evs \<noteq> [] \<and>
           fst ` set evs \<subseteq> {At_gamma, At_sigma, At_closest_triad, At_turn_on_pixels} \<and>
           (out = Returned Succeeded \<longrightarrow>
              local_field_value S' gid STATUS_FLAG = real_of_int (sc (init_status L))) \<and>
           (\<forall>site. out = Returned (Failed site) \<longrightarrow> site \<in> {Final_gamma_gate, Path_distance_gate})"
  using assms
proof (cases rule: finish_cases)
  case quality
  from final_quality_exit [OF quality] obtain evs site e where
    "out = Thrown e" "calls S' = calls S @ evs @ [(site, Exception e)]"
    "site \<in> {At_gamma, At_sigma}" "fst ` set evs \<subseteq> {At_gamma}" by blast
  then show ?thesis
    by (intro exI [of _ "evs @ [(site, Exception e)]"]) auto
next
  case (gamma gam sig S1)
  from final_quality_continue [OF gamma(1)] final_gamma_gate_exit [OF gamma(2)]
  show ?thesis
    by (intro exI [of _ "[(At_gamma, Scalar gam), (At_sigma, Scalar sig)]"]) auto
next
  case (distance gam sig S1)
  from path_distance_gate_exit [OF distance(2)] obtain r where
    r: "calls S' = calls S1 @ [(At_closest_triad, r)]"
    "case out of Thrown e \<Rightarrow> True | Returned ep \<Rightarrow> ep = Failed Path_distance_gate"
    by (cases out) auto
  with final_quality_continue [OF distance(1)] show ?thesis
    by (intro exI [of _ "[(At_gamma, Scalar gam), (At_sigma, Scalar sig), (At_closest_triad, r)]"])
       (cases out; auto)
next
  case (commit gam sig S1 S2)
  from path_distance_gate_continue [OF commit(2)] obtain e2 where
    e2: "calls S2 = calls S1 @ e2" "fst ` set e2 \<subseteq> {At_closest_triad}" by blast
  from commit_result [OF commit(3)] obtain e3 where
    e3: "calls S' = calls S2 @ e3" "fst ` set e3 \<subseteq> {At_turn_on_pixels}"
    "local_field_value S' gid STATUS_FLAG = real_of_int (sc (init_status L))"
    "case out of Thrown e \<Rightarrow> True | Returned ep \<Rightarrow> ep = Succeeded"
    by (cases out) auto
  from final_quality_continue [OF commit(1)] e2 e3 show ?thesis
    by (intro exI [of _ "[(At_gamma, Scalar gam), (At_sigma, Scalar sig)] @ e2 @ e3"])
       (cases out; auto)
qed

lemma retry_attempt_exit_trace:
  assumes "retry_attempt sc C gid fast (L, S) = Inl (out, S')"
  shows "(\<exists>e. out = Thrown e \<and> calls S' = calls S @ [(At_retry_initial_guess, Exception e)]) \<or>
         (\<exists>st r2. calls S' = calls S @ [(At_retry_initial_guess, Status st),
                                          (if fast then At_retry_fast else At_retry_robust, r2)] \<and>
            r2 \<noteq> Status CORRELATION_SUCCESSFUL \<and>
            ((\<exists>e. out = Thrown e \<and> r2 = Exception e \<and> e \<noteq> Logic_error) \<or>
             out = Returned (Failed Optimizer) \<and>
             (\<exists>cs. local_field_value S' gid STATUS_FLAG = real_of_int (sc cs) \<and>
                   (r2 = Status cs \<or> r2 = Exception Logic_error \<and> cs = CORRELATION_FAILED_BY_EXCEPTION))))"
proof -
  obtain r def' S1 where i: "initialize_by_method C gid At_retry_initial_guess (deformation L) S = (r, def', S1)"
    by (metis prod_cases3)
  note ir = initialize_by_method_result [OF i]
  show ?thesis
  proof (cases r)
    case (Thrown e)
    with assms i have "out = Thrown e" "S' = S1"
      by (simp_all add: retry_attempt_def)
    with ir Thrown show ?thesis by simp
  next
    case (Returned st)
    let ?site = "if fast then At_retry_fast else At_retry_robust"
    let ?L1 = "L\<lparr>init_status := st, deformation := def'\<rparr>"
    from ir Returned have c1: "calls S1 = calls S @ [(At_retry_initial_guess, Status st)]"
      by simp
    show ?thesis
    proof (cases "guarded_update C fast ?site (?L1, S1)")
      case (Inl x)
      with assms i Returned have x: "x = (out, S')"
        by (simp add: retry_attempt_def then_do_def)
      from guarded_update_exit [OF Inl [unfolded x]] obtain e where
        e: "out = Thrown e" "e \<noteq> Logic_error" "calls S' = calls S1 @ [(?site, Exception e)]"
        by blast
      have "calls S' = calls S @ [(At_retry_initial_guess, Status st), (?site, Exception e)]"
        using c1 e(3) by simp
      with e(1,2) show ?thesis by blast
    next
      case (Inr y)
      obtain L2 S2 where y: "y = (L2, S2)" by (cases y)
      note gu = guarded_update_continue [OF Inr [unfolded y]]
      from assms i Returned Inr y have bad: "corr_status L2 \<noteq> CORRELATION_SUCCESSFUL"
        and out: "out = Returned (Failed Optimizer)"
        and S': "S' = record_failed_step gid (sc (corr_status L2)) (num_iterations L2) S2"
        by (auto simp: retry_attempt_def then_do_def split: if_splits)
      from gu obtain r2 where r2: "calls S2 = calls S1 @ [(?site, r2)]"
        "r2 = Status (corr_status L2) \<or>
         r2 = Exception Logic_error \<and> corr_status L2 = CORRELATION_FAILED_BY_EXCEPTION"
        by blast
      have c: "calls S' = calls S @ [(At_retry_initial_guess, Status st), (?site, r2)]"
        using c1 r2(1) unfolding S' by (simp add: record_failed_step_frame)
      have st: "local_field_value S' gid STATUS_FLAG = real_of_int (sc (corr_status L2))"
        unfolding S' by (simp add: record_failed_step_fields)
      from r2(2) bad have ne: "r2 \<noteq> Status CORRELATION_SUCCESSFUL" by auto
      from c ne out st r2(2) show ?thesis by blast
    qed
  qed
qed

lemma pass_trace [consumes 2]:
  assumes "generic_correlation_routine sc C S = (out, S')" and "calls S = []"
  obtains
    (motion) r where "calls S' = [(At_motion_test, r)]"
  | (path) pre e where "calls S' = pre @ [(At_new_path_initializer, Exception e)]"
      "fst ` set pre \<subseteq> {At_motion_test, At_new_path_initializer}"
  | (init) pre e where "calls S' = pre @ [(At_initial_guess, Exception e)]"
      "fst ` set pre \<subseteq> {At_motion_test, At_new_path_initializer}"
      "e = Logic_error \<Longrightarrow> out = Returned (Failed Init_exception) \<and>
         local_field_value S' (correlation_point_global_id C) STATUS_FLAG
           = real_of_int (sc INITIALIZE_FAILED_BY_EXCEPTION)"
      "e \<noteq> Logic_error \<Longrightarrow> out = Thrown e"
  | (check) pre r0 where "calls S' = pre @ [(At_initial_guess, r0)]"
      "fst ` set pre \<subseteq> {At_motion_test, At_new_path_initializer}"
      "\<forall>e. r0 \<noteq> Exception e" "\<forall>g. r0 \<noteq> Scalar g"
  | (skip) pre r0 evs where "calls S' = pre @ [(At_initial_guess, r0)] @ evs"
      "fst ` set pre \<subseteq> {At_motion_test, At_new_path_initializer}"
      "\<forall>e. r0 \<noteq> Exception e" "evs \<noteq> []" "fst ` set evs \<subseteq> {At_skip_sigma, At_skip_gamma}"
      "skip_solve_flags S (correlation_point_global_id C) = Some True"
  | (gate) pre r0 where "calls S' = pre @ [(At_initial_guess, r0)]"
      "fst ` set pre \<subseteq> {At_motion_test, At_new_path_initializer}"
      "\<forall>e. r0 \<noteq> Exception e"
      "out = Returned (Failed Init_gamma_gate)"
      "local_field_value S' (correlation_point_global_id C) STATUS_FLAG = real_of_int (sc INITIALIZE_FAILED)"
      "local_field_value S' (correlation_point_global_id C) ITERATIONS = - 1"
      "local_field_value S' (correlation_point_global_id C) SIGMA_FIELD = - 1"
      "local_field_value S' (correlation_point_global_id C) MATCH = - 1"
      "local_field_value S' (correlation_point_global_id C) GAMMA = - 1"
  | (first) pre r0 e where
      "calls S' = pre @ [(At_initial_guess, r0), (first_site S, Exception e)]"
      "fst ` set pre \<subseteq> {At_motion_test, At_new_path_initializer}"
      "\<forall>e. r0 \<noteq> Exception e" "e \<noteq> Logic_error" "out = Thrown e"
      "\<forall>g. r0 = Scalar g \<longrightarrow> \<not> (initial_gamma_threshold S \<noteq> - 1 \<and> g > initial_gamma_threshold S)"
  | (single) pre r0 r1 cs where
      "calls S' = pre @ [(At_initial_guess, r0), (first_site S, r1)]"
      "fst ` set pre \<subseteq> {At_motion_test, At_new_path_initializer}"
      "\<forall>e. r0 \<noteq> Exception e"
      "out = Returned (Failed Optimizer)"
      "local_field_value S' (correlation_point_global_id C) STATUS_FLAG = real_of_int (sc cs)"
      "r1 = Status cs \<or> r1 = Exception Logic_error \<and> cs = CORRELATION_FAILED_BY_EXCEPTION"
      "\<forall>g. r0 = Scalar g \<longrightarrow> \<not> (initial_gamma_threshold S \<noteq> - 1 \<and> g > initial_gamma_threshold S)"
  | (retry_guess) pre r0 r1 e where
      "calls S' = pre @ [(At_initial_guess, r0), (first_site S, r1),
                         (At_retry_initial_guess, Exception e)]"
      "fst ` set pre \<subseteq> {At_motion_test, At_new_path_initializer}"
      "\<forall>e. r0 \<noteq> Exception e" "out = Thrown e"
      "\<forall>g. r0 = Scalar g \<longrightarrow> \<not> (initial_gamma_threshold S \<noteq> - 1 \<and> g > initial_gamma_threshold S)"
  | (retry) pre r0 r1 st r2 where
      "calls S' = pre @ [(At_initial_guess, r0), (first_site S, r1),
                         (At_retry_initial_guess, Status st), (retry_site S, r2)]"
      "fst ` set pre \<subseteq> {At_motion_test, At_new_path_initializer}"
      "\<forall>e. r0 \<noteq> Exception e" "r2 \<noteq> Status CORRELATION_SUCCESSFUL"
      "(\<exists>e. out = Thrown e \<and> r2 = Exception e \<and> e \<noteq> Logic_error) \<or>
       out = Returned (Failed Optimizer) \<and>
       (\<exists>cs. local_field_value S' (correlation_point_global_id C) STATUS_FLAG = real_of_int (sc cs) \<and>
             (r2 = Status cs \<or> r2 = Exception Logic_error \<and> cs = CORRELATION_FAILED_BY_EXCEPTION))"
      "\<forall>g. r0 = Scalar g \<longrightarrow> \<not> (initial_gamma_threshold S \<noteq> - 1 \<and> g > initial_gamma_threshold S)"
  | (finish_first) pre r0 evs where
      "calls S' = pre @ [(At_initial_guess, r0), (first_site S, Status CORRELATION_SUCCESSFUL)] @ evs"
      "fst ` set pre \<subseteq> {At_motion_test, At_new_path_initializer}"
      "\<forall>e. r0 \<noteq> Exception e" "evs \<noteq> []"
      "fst ` set evs \<subseteq> {At_gamma, At_sigma, At_closest_triad, At_turn_on_pixels}"
      "\<forall>g. r0 = Scalar g \<longrightarrow> \<not> (initial_gamma_threshold S \<noteq> - 1 \<and> g > initial_gamma_threshold S)"
  | (finish_retry) pre r0 r1 st evs where
      "calls S' = pre @ [(At_initial_guess, r0), (first_site S, r1),
                         (At_retry_initial_guess, Status st),
                         (retry_site S, Status CORRELATION_SUCCESSFUL)] @ evs"
      "fst ` set pre \<subseteq> {At_motion_test, At_new_path_initializer}"
      "\<forall>e. r0 \<noteq> Exception e" "r1 \<noteq> Status CORRELATION_SUCCESSFUL" "evs \<noteq> []"
      "fst ` set evs \<subseteq> {At_gamma, At_sigma, At_closest_triad, At_turn_on_pixels}"
      "out = Returned Succeeded \<longrightarrow>
         local_field_value S' (correlation_point_global_id C) STATUS_FLAG = real_of_int (sc st)"
      "initialization_method S = USE_PHASE_CORRELATION \<longrightarrow> st = INITIALIZE_SUCCESSFUL"
      "\<forall>site. out = Returned (Failed site) \<longrightarrow> site \<in> {Final_gamma_gate, Path_distance_gate}"
      "\<forall>g. r0 = Scalar g \<longrightarrow> \<not> (initial_gamma_threshold S \<noteq> - 1 \<and> g > initial_gamma_threshold S)"
proof -
  let ?gid = "correlation_point_global_id C"
  have pre_sites: "fst ` set pre \<subseteq> {At_motion_test, At_new_path_initializer}"
    if "set pre \<subseteq> {(At_motion_test, Flag True), (At_new_path_initializer, Normal)}" for pre
    using that by auto
  have guessedD: "\<exists>pre r0. calls S3 = pre @ [(At_initial_guess, r0)] \<and>
        fst ` set pre \<subseteq> {At_motion_test, At_new_path_initializer} \<and> (\<forall>e. r0 \<noteq> Exception e) \<and>
        (\<forall>g. r0 = Scalar g \<longrightarrow> initial_gamma L = g \<and> init_status L = INITIALIZE_SUCCESSFUL)"
    if "guessed S L S3" for L S3
    using that assms(2) pre_sites unfolding guessed_def by auto
  have cfg: "initial_gamma_threshold S3 = initial_gamma_threshold S \<and>
      skip_solve_flags S3 = skip_solve_flags S \<and> optimization_method S3 = optimization_method S \<and>
      initialization_method S3 = initialization_method S \<and>
      first_site S3 = first_site S \<and> retry_site S3 = retry_site S"
    if "kept S S3" for S3
    using that by (simp add: kept_def same_config_def first_site_def retry_site_def)
  from assms(1) show ?thesis
  proof (cases rule: routine_cases)
    case motion
    from motion_gate_exit [OF motion] assms(2) obtain r where "calls S' = [(At_motion_test, r)]"
      by auto
    then show ?thesis by (rule that(1))
  next
    case (path S1)
    from motion_gate_continue [OF path(1)] assms(2) obtain pre where
      "calls S1 = pre" "set pre \<subseteq> {(At_motion_test, Flag True)}" by auto
    moreover from path_setup_exit [OF path(2)] obtain e where
      "calls S' = calls S1 @ [(At_new_path_initializer, Exception e)]" by blast
    ultimately have "calls S' = pre @ [(At_new_path_initializer, Exception e)]"
      "fst ` set pre \<subseteq> {At_motion_test, At_new_path_initializer}" by auto
    then show ?thesis by (rule that(2))
  next
    case (init S2)
    from init(1) assms(2) obtain pre where
      pre: "calls S2 = pre" "fst ` set pre \<subseteq> {At_motion_test, At_new_path_initializer}"
      unfolding set_up_def using pre_sites by auto
    from initial_guess_exit [OF init(2)] obtain e where
      e: "calls S' = calls S2 @ [(At_initial_guess, Exception e)]"
      "e = Logic_error \<Longrightarrow> out = Returned (Failed Init_exception) \<and>
         local_field_value S' ?gid STATUS_FLAG = real_of_int (sc INITIALIZE_FAILED_BY_EXCEPTION)"
      "e \<noteq> Logic_error \<Longrightarrow> out = Thrown e"
      by (auto split: if_splits)
    from e(1) pre(1) have "calls S' = pre @ [(At_initial_guess, Exception e)]" by simp
    then show ?thesis using pre(2) e(2,3) by (rule that(3))
  next
    case (check L S3)
    from guessedD [OF check(1)] obtain pre r0 where
      g: "calls S3 = pre @ [(At_initial_guess, r0)]"
      "fst ` set pre \<subseteq> {At_motion_test, At_new_path_initializer}" "\<forall>e. r0 \<noteq> Exception e"
      "\<forall>g. r0 = Scalar g \<longrightarrow> initial_gamma L = g \<and> init_status L = INITIALIZE_SUCCESSFUL"
      by blast
    from check_initialization_exit [OF check(2)] g(1)
    have "calls S' = pre @ [(At_initial_guess, r0)]"
      by (simp add: record_failed_step_frame)
    moreover from check_initialization_failed [OF check(2)] g(4) have "\<forall>g. r0 \<noteq> Scalar g"
      by auto
    ultimately show ?thesis using g(2,3) by (intro that(4))
  next
    case (skip L S3)
    from guessedD [OF skip(1)] obtain pre r0 where
      g: "calls S3 = pre @ [(At_initial_guess, r0)]"
      "fst ` set pre \<subseteq> {At_motion_test, At_new_path_initializer}" "\<forall>e. r0 \<noteq> Exception e"
      by blast
    from skip(1) have k: "kept S S3" by (simp add: guessed_def)
    from skip_solve_exit [OF skip(2)] obtain evs site r where
      s: "skip_solve_flags S3 ?gid = Some True" "calls S' = calls S3 @ evs @ [(site, r)]"
      "site \<in> {At_skip_sigma, At_skip_gamma}" "fst ` set evs \<subseteq> {At_skip_sigma, At_skip_gamma}"
      by blast
    have "calls S' = pre @ [(At_initial_guess, r0)] @ (evs @ [(site, r)])"
      using g(1) s(2) by simp
    moreover have "evs @ [(site, r)] \<noteq> []" by simp
    moreover have "fst ` set (evs @ [(site, r)]) \<subseteq> {At_skip_sigma, At_skip_gamma}"
      using s(3,4) by auto
    moreover have "skip_solve_flags S ?gid = Some True"
      using s(1) cfg [OF k] by simp
    ultimately show ?thesis using g(2,3) by (intro that(5))
  next
    case (gate L S3)
    from guessedD [OF gate(1)] obtain pre r0 where
      g: "calls S3 = pre @ [(At_initial_guess, r0)]"
      "fst ` set pre \<subseteq> {At_motion_test, At_new_path_initializer}" "\<forall>e. r0 \<noteq> Exception e"
      by blast
    from gate(1) have n: "num_iterations L = - 1" by (simp add: guessed_def)
    from initial_gamma_gate_exit [OF gate(3)]
    have out: "out = Returned (Failed Init_gamma_gate)"
      and S': "S' = record_failed_step ?gid (sc INITIALIZE_FAILED) (num_iterations L) S3"
      by simp_all
    have c: "calls S' = pre @ [(At_initial_guess, r0)]"
      using g(1) unfolding S' by (simp add: record_failed_step_frame)
    have fl: "local_field_value S' ?gid STATUS_FLAG = real_of_int (sc INITIALIZE_FAILED)"
      "local_field_value S' ?gid ITERATIONS = - 1"
      "local_field_value S' ?gid SIGMA_FIELD = - 1"
      "local_field_value S' ?gid MATCH = - 1"
      "local_field_value S' ?gid GAMMA = - 1"
      unfolding S' by (simp_all add: record_failed_step_fields n)
    from c g(2,3) out fl show ?thesis by (rule that(6))
  next
    case (first L S3)
    from guessedD [OF first(1)] obtain pre r0 where
      g: "calls S3 = pre @ [(At_initial_guess, r0)]"
      "fst ` set pre \<subseteq> {At_motion_test, At_new_path_initializer}" "\<forall>e. r0 \<noteq> Exception e"
      "\<forall>g. r0 = Scalar g \<longrightarrow> initial_gamma L = g \<and> init_status L = INITIALIZE_SUCCESSFUL"
      by blast
    from first(1) have k: "kept S S3" by (simp add: guessed_def)
    from g(4) first(3) cfg [OF k]
    have passed: "\<forall>g. r0 = Scalar g \<longrightarrow>
        \<not> (initial_gamma_threshold S \<noteq> - 1 \<and> g > initial_gamma_threshold S)"
      by auto
    from guarded_update_exit [OF first(4) [unfolded first_attempt_eq]] obtain e where
      e: "out = Thrown e" "e \<noteq> Logic_error" "calls S' = calls S3 @ [(first_site S3, Exception e)]"
      by blast
    have "calls S' = pre @ [(At_initial_guess, r0), (first_site S, Exception e)]"
      using g(1) e(3) cfg [OF k] by simp
    then show ?thesis using g(2,3) e(2,1) passed by (rule that(7))
  next
    case (second L S3 L4 S4)
    from guessedD [OF second(1)] obtain pre r0 where
      g: "calls S3 = pre @ [(At_initial_guess, r0)]"
      "fst ` set pre \<subseteq> {At_motion_test, At_new_path_initializer}" "\<forall>e. r0 \<noteq> Exception e"
      "\<forall>g. r0 = Scalar g \<longrightarrow> initial_gamma L = g \<and> init_status L = INITIALIZE_SUCCESSFUL"
      by blast
    from second(1) have k: "kept S S3" by (simp add: guessed_def)
    from g(4) second(3) cfg [OF k]
    have passed: "\<forall>g. r0 = Scalar g \<longrightarrow>
        \<not> (initial_gamma_threshold S \<noteq> - 1 \<and> g > initial_gamma_threshold S)"
      by auto
    from guarded_update_continue [OF second(4) [unfolded first_attempt_eq]] obtain r1 where
      f: "kept S3 S4" "calls S4 = calls S3 @ [(first_site S3, r1)]"
      "r1 = Status (corr_status L4) \<or>
       r1 = Exception Logic_error \<and> corr_status L4 = CORRELATION_FAILED_BY_EXCEPTION"
      by blast
    from k f(1) have k4: "kept S S4" by (rule kept_trans)
    have c4: "calls S4 = pre @ [(At_initial_guess, r0), (first_site S, r1)]"
      using g(1) f(2) cfg [OF k] by simp
    from second_attempt_exit [OF second(5)]
    consider (a) "out = Returned (Failed Optimizer)"
        "S' = record_failed_step ?gid (sc (corr_status L4)) (num_iterations L4) S4"
      | (b) "retry_attempt sc C ?gid (optimization_method S4 = SIMPLEX_THEN_GRADIENT_BASED) (L4, S4)
           = Inl (out, S')"
      by blast
    then show ?thesis
    proof cases
      case a
      have "calls S' = pre @ [(At_initial_guess, r0), (first_site S, r1)]"
        using c4 unfolding a(2) by (simp add: record_failed_step_frame)
      moreover have "local_field_value S' ?gid STATUS_FLAG = real_of_int (sc (corr_status L4))"
        unfolding a(2) by (simp add: record_failed_step_fields)
      ultimately show ?thesis using g(2,3) a(1) f(3) passed by (intro that(8))
    next
      case b
      have site: "(if optimization_method S4 = SIMPLEX_THEN_GRADIENT_BASED
                   then At_retry_fast else At_retry_robust) = retry_site S"
        using cfg [OF k4] by (simp add: retry_site_def)
      from retry_attempt_exit_trace [OF b, unfolded site]
      consider (i) e where "out = Thrown e"
          "calls S' = calls S4 @ [(At_retry_initial_guess, Exception e)]"
        | (u) st r2 where
          "calls S' = calls S4 @ [(At_retry_initial_guess, Status st), (retry_site S, r2)]"
          "r2 \<noteq> Status CORRELATION_SUCCESSFUL"
          "(\<exists>e. out = Thrown e \<and> r2 = Exception e \<and> e \<noteq> Logic_error) \<or>
           out = Returned (Failed Optimizer) \<and>
           (\<exists>cs. local_field_value S' ?gid STATUS_FLAG = real_of_int (sc cs) \<and>
                 (r2 = Status cs \<or> r2 = Exception Logic_error \<and> cs = CORRELATION_FAILED_BY_EXCEPTION))"
        by blast
      then show ?thesis
      proof cases
        case i
        have "calls S' = pre @ [(At_initial_guess, r0), (first_site S, r1),
                                (At_retry_initial_guess, Exception e)]"
          using c4 i(2) by simp
        then show ?thesis using g(2,3) i(1) passed by (rule that(9))
      next
        case u
        have "calls S' = pre @ [(At_initial_guess, r0), (first_site S, r1),
                                (At_retry_initial_guess, Status st), (retry_site S, r2)]"
          using c4 u(1) by simp
        then show ?thesis using g(2,3) u(2,3) passed by (rule that(10))
      qed
    qed
  next
    case (finish L S3 L4 S4 L5 S5)
    from guessedD [OF finish(1)] obtain pre r0 where
      g: "calls S3 = pre @ [(At_initial_guess, r0)]"
      "fst ` set pre \<subseteq> {At_motion_test, At_new_path_initializer}" "\<forall>e. r0 \<noteq> Exception e"
      "\<forall>g. r0 = Scalar g \<longrightarrow> initial_gamma L = g \<and> init_status L = INITIALIZE_SUCCESSFUL"
      by blast
    from finish(1) have k: "kept S S3" by (simp add: guessed_def)
    from g(4) finish(3) cfg [OF k]
    have passed: "\<forall>g. r0 = Scalar g \<longrightarrow>
        \<not> (initial_gamma_threshold S \<noteq> - 1 \<and> g > initial_gamma_threshold S)"
      by auto
    from guarded_update_continue [OF finish(4) [unfolded first_attempt_eq]] obtain r1 where
      f: "kept S3 S4" "calls S4 = calls S3 @ [(first_site S3, r1)]"
      "r1 = Status (corr_status L4) \<or>
       r1 = Exception Logic_error \<and> corr_status L4 = CORRELATION_FAILED_BY_EXCEPTION"
      by blast
    from k f(1) have k4: "kept S S4" by (rule kept_trans)
    have c4: "calls S4 = pre @ [(At_initial_guess, r0), (first_site S, r1)]"
      using g(1) f(2) cfg [OF k] by simp
    from finish_trace [OF finish(6)] obtain evs where
      t: "calls S' = calls S5 @ evs" "evs \<noteq> []"
      "fst ` set evs \<subseteq> {At_gamma, At_sigma, At_closest_triad, At_turn_on_pixels}"
      "out = Returned Succeeded \<longrightarrow>
         local_field_value S' ?gid STATUS_FLAG = real_of_int (sc (init_status L5))"
      "\<forall>site. out = Returned (Failed site) \<longrightarrow> site \<in> {Final_gamma_gate, Path_distance_gate}"
      by blast
    from second_attempt_continue [OF finish(5)]
    consider (a) "corr_status L4 = CORRELATION_SUCCESSFUL" "S5 = S4"
      | (b) "corr_status L4 \<noteq> CORRELATION_SUCCESSFUL"
        "retry_attempt sc C ?gid (optimization_method S4 = SIMPLEX_THEN_GRADIENT_BASED) (L4, S4)
           = Inr (L5, S5)"
      by blast
    then show ?thesis
    proof cases
      case a
      from f(3) a(1) have "r1 = Status CORRELATION_SUCCESSFUL" by auto
      with c4 t(1) a(2)
      have "calls S' = pre @ [(At_initial_guess, r0), (first_site S, Status CORRELATION_SUCCESSFUL)] @ evs"
        by simp
      then show ?thesis using g(2,3) t(2,3) passed by (rule that(11))
    next
      case b
      have site: "(if optimization_method S4 = SIMPLEX_THEN_GRADIENT_BASED
                   then At_retry_fast else At_retry_robust) = retry_site S"
        using cfg [OF k4] by (simp add: retry_site_def)
      from retry_attempt_continue [OF b(2), unfolded site] obtain st where
        r: "calls S5 = calls S4 @ [(At_retry_initial_guess, Status st),
                                  (retry_site S, Status CORRELATION_SUCCESSFUL)]"
        "init_status L5 = st"
        "initialization_method S4 = USE_PHASE_CORRELATION \<longrightarrow> st = INITIALIZE_SUCCESSFUL"
        by blast
      have "calls S' = pre @ [(At_initial_guess, r0), (first_site S, r1),
                              (At_retry_initial_guess, Status st),
                              (retry_site S, Status CORRELATION_SUCCESSFUL)] @ evs"
        using c4 r(1) t(1) by simp
      moreover from f(3) b(1) have "r1 \<noteq> Status CORRELATION_SUCCESSFUL" by auto
      moreover from r(3) cfg [OF k4]
      have "initialization_method S = USE_PHASE_CORRELATION \<longrightarrow> st = INITIALIZE_SUCCESSFUL"
        by simp
      moreover from t(4) r(2)
      have "out = Returned Succeeded \<longrightarrow> local_field_value S' ?gid STATUS_FLAG = real_of_int (sc st)"
        by simp
      ultimately show ?thesis using g(2,3) t(2,3,5) passed by (intro that(12))
    qed
  qed
qed

subsection \<open>The claims about a pass\<close>

lemma first_site_cases: "first_site S = At_first_fast \<or> first_site S = At_first_robust"
  by (simp add: first_site_def)

lemma retry_site_cases: "retry_site S = At_retry_fast \<or> retry_site S = At_retry_robust"
  by (simp add: retry_site_def)

lemma last_site: "evs \<noteq> [] \<Longrightarrow> fst ` set evs \<subseteq> A \<Longrightarrow> fst (last evs) \<in> A"
  by (meson image_subset_iff last_in_set)

lemma not_in_sites: "fst ` set evs \<subseteq> A \<Longrightarrow> site \<notin> A \<Longrightarrow> (site, r) \<notin> set evs"
  by force

lemma filter_sites_empty:
  "fst ` set evs \<subseteq> A \<Longrightarrow> A \<inter> B = {} \<Longrightarrow> filter (\<lambda>ev. fst ev \<in> B) evs = []"
  by (induction evs) auto

text \<open>
  Claim C3, as the code has it. When a pass ends at a call of \<^verbatim>\<open>record_failed_step\<close>, the
  rotation and the strains of the point are what they were before the pass, sigma, match
  and gamma are \<open>-1\<close>, and the status and the iteration count are overwritten. The
  displacement is what it was before the pass, except at the final gamma gate with the
  phase correlation as initialization method, where the phase correlation offsets are
  added to it.
\<close>

theorem failed_pass_fields:
  assumes "generic_correlation_routine sc C S = (Returned (Failed site), S')"
  shows "local_field_value S' (correlation_point_global_id C) ROTATION_Z
           = local_field_value S (correlation_point_global_id C) ROTATION_Z \<and>
         local_field_value S' (correlation_point_global_id C) NORMAL_STRAIN_X
           = local_field_value S (correlation_point_global_id C) NORMAL_STRAIN_X \<and>
         local_field_value S' (correlation_point_global_id C) NORMAL_STRAIN_Y
           = local_field_value S (correlation_point_global_id C) NORMAL_STRAIN_Y \<and>
         local_field_value S' (correlation_point_global_id C) SHEAR_STRAIN_XY
           = local_field_value S (correlation_point_global_id C) SHEAR_STRAIN_XY \<and>
         (if site = Final_gamma_gate \<and> initialization_method S = USE_PHASE_CORRELATION
          then local_field_value S' (correlation_point_global_id C) DISPLACEMENT_X
                 = local_field_value S (correlation_point_global_id C) DISPLACEMENT_X + phase_cor_u_x S \<and>
               local_field_value S' (correlation_point_global_id C) DISPLACEMENT_Y
                 = local_field_value S (correlation_point_global_id C) DISPLACEMENT_Y + phase_cor_u_y S
          else local_field_value S' (correlation_point_global_id C) DISPLACEMENT_X
                 = local_field_value S (correlation_point_global_id C) DISPLACEMENT_X \<and>
               local_field_value S' (correlation_point_global_id C) DISPLACEMENT_Y
                 = local_field_value S (correlation_point_global_id C) DISPLACEMENT_Y) \<and>
         local_field_value S' (correlation_point_global_id C) SIGMA_FIELD = - 1 \<and>
         local_field_value S' (correlation_point_global_id C) MATCH = - 1 \<and>
         local_field_value S' (correlation_point_global_id C) GAMMA = - 1 \<and>
         (\<exists>st n. local_field_value S' (correlation_point_global_id C) STATUS_FLAG = real_of_int (sc st) \<and>
                 local_field_value S' (correlation_point_global_id C) ITERATIONS = real_of_int n)"
proof -
  from pass_summary [OF assms]
  have "failed_effect sc (correlation_point_global_id C) site S S'"
    by (simp add: exit_summary_def)
  then show ?thesis
    unfolding failed_effect_def .
qed

text \<open>
  What the handlers of the routine do in a pass (with the record of calls empty at its
  start): an exception leaves the routine only from the last call made, and never when it
  is a \<^verbatim>\<open>std::logic_error\<close> thrown by the initial guess of lines 1108--1137 or by an optimizer
  call; a \<^verbatim>\<open>std::logic_error\<close> of that initial guess ends the pass with the status
  \<^verbatim>\<open>INITIALIZE_FAILED_BY_EXCEPTION\<close>; a \<^verbatim>\<open>std::logic_error\<close> of an optimizer call that is the
  last call of the pass ends it with the status \<^verbatim>\<open>CORRELATION_FAILED_BY_EXCEPTION\<close>; and the
  fields of all other points are left as they were, however the pass ends. The initial
  guess that is taken again for the second attempt is not among the calls that are
  caught.
\<close>

lemma guarded_logic_errors_are_caught:
  assumes "generic_correlation_routine sc C S = (out, S')" and "calls S = []"
  shows "(\<forall>e. out = Thrown e \<longrightarrow>
            calls S' \<noteq> [] \<and> snd (last (calls S')) = Exception e \<and>
            \<not> (e = Logic_error \<and>
               fst (last (calls S')) \<in> {At_initial_guess, At_first_fast, At_first_robust,
                                         At_retry_fast, At_retry_robust})) \<and>
         ((At_initial_guess, Exception Logic_error) \<in> set (calls S') \<longrightarrow>
            out = Returned (Failed Init_exception) \<and>
            local_field_value S' (correlation_point_global_id C) STATUS_FLAG
              = real_of_int (sc INITIALIZE_FAILED_BY_EXCEPTION)) \<and>
         (calls S' \<noteq> [] \<and> snd (last (calls S')) = Exception Logic_error \<and>
          fst (last (calls S')) \<in> {At_first_fast, At_first_robust, At_retry_fast, At_retry_robust} \<longrightarrow>
            out = Returned (Failed Optimizer) \<and>
            local_field_value S' (correlation_point_global_id C) STATUS_FLAG
              = real_of_int (sc CORRELATION_FAILED_BY_EXCEPTION)) \<and>
         (\<forall>g. g \<noteq> correlation_point_global_id C \<longrightarrow> local_field_value S' g = local_field_value S g)"
proof (intro conjI)
  from pass_summary [OF assms(1)] assms(2)
  show "\<forall>e. out = Thrown e \<longrightarrow>
            calls S' \<noteq> [] \<and> snd (last (calls S')) = Exception e \<and>
            \<not> (e = Logic_error \<and>
               fst (last (calls S')) \<in> {At_initial_guess, At_first_fast, At_first_robust,
                                         At_retry_fast, At_retry_robust})"
    unfolding exit_summary_def guarded_def by auto
  from pass_summary [OF assms(1)]
  show "\<forall>g. g \<noteq> correlation_point_global_id C \<longrightarrow> local_field_value S' g = local_field_value S g"
    unfolding exit_summary_def others_kept_def by blast
  note fs = first_site_cases [of S] and rs = retry_site_cases [of S]
  from assms
  show "(At_initial_guess, Exception Logic_error) \<in> set (calls S') \<longrightarrow>
            out = Returned (Failed Init_exception) \<and>
            local_field_value S' (correlation_point_global_id C) STATUS_FLAG
              = real_of_int (sc INITIALIZE_FAILED_BY_EXCEPTION)"
  proof (cases rule: pass_trace)
    case (init pre e)
    from not_in_sites [OF init(2), of At_initial_guess] init(1,3)
    show ?thesis by auto
  next
    case (skip pre r0 evs)
    from not_in_sites [OF skip(2), of At_initial_guess]
      not_in_sites [OF skip(5), of At_initial_guess] skip(1,3)
    show ?thesis by auto
  next
    case (finish_first pre r0 evs)
    from not_in_sites [OF finish_first(2), of At_initial_guess]
      not_in_sites [OF finish_first(5), of At_initial_guess] finish_first(1,3) fs
    show ?thesis by auto
  next
    case (finish_retry pre r0 r1 st evs)
    from not_in_sites [OF finish_retry(2), of At_initial_guess]
      not_in_sites [OF finish_retry(6), of At_initial_guess] finish_retry(1,3) fs rs
    show ?thesis by auto
  qed (use fs rs in \<open>auto dest: not_in_sites [where site = At_initial_guess]\<close>)
  from assms
  show "calls S' \<noteq> [] \<and> snd (last (calls S')) = Exception Logic_error \<and>
          fst (last (calls S')) \<in> {At_first_fast, At_first_robust, At_retry_fast, At_retry_robust} \<longrightarrow>
            out = Returned (Failed Optimizer) \<and>
            local_field_value S' (correlation_point_global_id C) STATUS_FLAG
              = real_of_int (sc CORRELATION_FAILED_BY_EXCEPTION)"
  proof (cases rule: pass_trace)
    case (skip pre r0 evs)
    from last_site [OF skip(4,5)] skip(1,4) show ?thesis by auto
  next
    case (finish_first pre r0 evs)
    from last_site [OF finish_first(4,5)] finish_first(1,4) show ?thesis by auto
  next
    case (finish_retry pre r0 r1 st evs)
    from last_site [OF finish_retry(5,6)] finish_retry(1,5) show ?thesis by auto
  qed (use fs rs in auto)
qed

text \<open>
  Claim C5, as the code has it. With an initial gamma threshold of 0.05 and an initial
  guess that gave an initial gamma of 0.10, for a point whose solve is not to be skipped,
  the pass ends at the initial gamma gate: the status is \<^verbatim>\<open>INITIALIZE_FAILED\<close>, sigma, match
  and gamma are \<open>-1\<close>, and the iteration count is \<open>-1\<close>, the value \<^verbatim>\<open>num_iterations\<close> has
  before any optimizer call.
\<close>

theorem initial_gamma_gate_fails:
  assumes "generic_correlation_routine sc C S = (out, S')" and "calls S = []"
    and "initial_gamma_threshold S = 5 / 100"
    and "(At_initial_guess, Scalar (10 / 100)) \<in> set (calls S')"
    and "skip_solve_flags S (correlation_point_global_id C) \<noteq> Some True"
  shows "out = Returned (Failed Init_gamma_gate) \<and>
         local_field_value S' (correlation_point_global_id C) STATUS_FLAG
           = real_of_int (sc INITIALIZE_FAILED) \<and>
         local_field_value S' (correlation_point_global_id C) SIGMA_FIELD = - 1 \<and>
         local_field_value S' (correlation_point_global_id C) MATCH = - 1 \<and>
         local_field_value S' (correlation_point_global_id C) GAMMA = - 1 \<and>
         local_field_value S' (correlation_point_global_id C) ITERATIONS = - 1"
proof -
  note fs = first_site_cases [of S] and rs = retry_site_cases [of S]
  have gamma: "r0 = Scalar (10 / 100)"
    if "calls S' = pre @ (At_initial_guess, r0) # evs"
      and "fst ` set pre \<subseteq> {At_motion_test, At_new_path_initializer}"
      and "At_initial_guess \<notin> fst ` set evs" for pre r0 evs
    using that assms(4) by (force dest: not_in_sites [where site = At_initial_guess] simp: image_iff)
  have blocked: False
    if "r0 = Scalar (10 / 100)"
      and "\<forall>g. r0 = Scalar g \<longrightarrow> \<not> (initial_gamma_threshold S \<noteq> - 1 \<and> g > initial_gamma_threshold S)"
    for r0
  proof -
    from that have "\<not> (initial_gamma_threshold S \<noteq> - 1 \<and> 10 / 100 > initial_gamma_threshold S)"
      by blast
    with assms(3) show False by simp
  qed
  from assms(1,2) show ?thesis
  proof (cases rule: pass_trace)
    case (motion r)
    with assms(4) show ?thesis by simp
  next
    case (path pre e)
    with assms(4) show ?thesis by (auto dest: not_in_sites [where site = At_initial_guess])
  next
    case (init pre e)
    with assms(4) show ?thesis by (auto dest: not_in_sites [where site = At_initial_guess])
  next
    case (check pre r0)
    from gamma [of pre r0 "[]"] check show ?thesis by simp
  next
    case (skip pre r0 evs)
    with assms(5) show ?thesis by simp
  next
    case (gate pre r0)
    then show ?thesis by simp
  next
    case (first pre r0 e)
    from gamma [of pre r0 "[(first_site S, Exception e)]"] first(1,2) fs
    have "r0 = Scalar (10 / 100)" by auto
    with blocked first(6) show ?thesis by blast
  next
    case (single pre r0 r1 cs)
    from gamma [of pre r0 "[(first_site S, r1)]"] single(1,2) fs
    have "r0 = Scalar (10 / 100)" by auto
    with blocked single(7) show ?thesis by blast
  next
    case (retry_guess pre r0 r1 e)
    from gamma [of pre r0 "[(first_site S, r1), (At_retry_initial_guess, Exception e)]"]
      retry_guess(1,2) fs
    have "r0 = Scalar (10 / 100)" by auto
    with blocked retry_guess(5) show ?thesis by blast
  next
    case (retry pre r0 r1 st r2)
    from gamma [of pre r0 "[(first_site S, r1), (At_retry_initial_guess, Status st), (retry_site S, r2)]"]
      retry(1,2) fs rs
    have "r0 = Scalar (10 / 100)" by auto
    with blocked retry(6) show ?thesis by blast
  next
    case (finish_first pre r0 evs)
    have "At_initial_guess \<notin> fst ` set ((first_site S, Status CORRELATION_SUCCESSFUL) # evs)"
      using finish_first(5) fs by auto
    from gamma [OF _ finish_first(2) this] finish_first(1)
    have "r0 = Scalar (10 / 100)" by simp
    with blocked finish_first(6) show ?thesis by blast
  next
    case (finish_retry pre r0 r1 st evs)
    have "At_initial_guess \<notin> fst ` set ((first_site S, r1) # (At_retry_initial_guess, Status st) #
        (retry_site S, Status CORRELATION_SUCCESSFUL) # evs)"
      using finish_retry(6) fs rs by auto
    from gamma [OF _ finish_retry(2) this] finish_retry(1)
    have "r0 = Scalar (10 / 100)" by simp
    with blocked finish_retry(10) show ?thesis by blast
  qed
qed

text \<open>
  Claim C4, as the code has it. With the method \<^verbatim>\<open>GRADIENT_BASED_THEN_SIMPLEX\<close>, when the
  fast update did not return \<^verbatim>\<open>CORRELATION_SUCCESSFUL\<close> and the robust update of the retry
  did: the optimizer calls and initial guesses from the first update on are the fast
  update, one new initial guess and one robust update, in this order; the pass does not
  end with the failure of the optimizer; when it ends at the commit, the status that is
  recorded is the status \<open>st\<close> of the new initial guess (\<^verbatim>\<open>INITIALIZE_SUCCESSFUL\<close> with the
  phase correlation), and otherwise it ends at the final gamma gate, at the path distance
  gate or with an exception.
\<close>

theorem fallback_records_retry_status:
  assumes "generic_correlation_routine sc C S = (out, S')" and "calls S = []"
    and "optimization_method S = GRADIENT_BASED_THEN_SIMPLEX"
    and "(At_first_fast, r1) \<in> set (calls S')" and "r1 \<noteq> Status CORRELATION_SUCCESSFUL"
    and "(At_retry_robust, Status CORRELATION_SUCCESSFUL) \<in> set (calls S')"
  shows "\<exists>st. filter (\<lambda>ev. fst ev \<in> {At_first_fast, At_first_robust, At_retry_initial_guess,
                                       At_retry_fast, At_retry_robust}) (calls S')
                = [(At_first_fast, r1), (At_retry_initial_guess, Status st),
                   (At_retry_robust, Status CORRELATION_SUCCESSFUL)] \<and>
              out \<noteq> Returned (Failed Optimizer) \<and>
              (out = Returned Succeeded \<longrightarrow>
                 local_field_value S' (correlation_point_global_id C) STATUS_FLAG = real_of_int (sc st)) \<and>
              (initialization_method S = USE_PHASE_CORRELATION \<longrightarrow> st = INITIALIZE_SUCCESSFUL) \<and>
              (\<forall>site. out = Returned (Failed site) \<longrightarrow> site \<in> {Final_gamma_gate, Path_distance_gate})"
proof -
  let ?B = "{At_first_fast, At_first_robust, At_retry_initial_guess, At_retry_fast, At_retry_robust}"
  from assms(3) have fs: "first_site S = At_first_fast" and rs: "retry_site S = At_retry_robust"
    by (simp_all add: first_site_def retry_site_def)
  note no = not_in_sites [where site = At_retry_robust]
  from assms(1,2) show ?thesis
  proof (cases rule: pass_trace)
    case (motion r)
    with assms(6) show ?thesis by simp
  next
    case (path pre e)
    with assms(6) show ?thesis by (auto dest: no)
  next
    case (init pre e)
    with assms(6) show ?thesis by (auto dest: no)
  next
    case (check pre r0)
    with assms(6) show ?thesis by (auto dest: no)
  next
    case (skip pre r0 evs)
    with assms(6) show ?thesis by (auto dest: no)
  next
    case (gate pre r0)
    with assms(6) show ?thesis by (auto dest: no)
  next
    case (first pre r0 e)
    with assms(6) fs show ?thesis by (auto dest: no)
  next
    case (single pre r0 r1 cs)
    with assms(6) fs show ?thesis by (auto dest: no)
  next
    case (retry_guess pre r0 r1 e)
    with assms(6) fs show ?thesis by (auto dest: no)
  next
    case (retry pre r0 r1 st r2)
    with assms(6) fs rs show ?thesis by (auto dest: no)
  next
    case (finish_first pre r0 evs)
    with assms(6) fs show ?thesis by (auto dest: no)
  next
    case (finish_retry pre r0 r1' st evs)
    have pre: "filter (\<lambda>ev. fst ev \<in> ?B) pre = []"
      by (rule filter_sites_empty [OF finish_retry(2)]) simp
    have evs: "filter (\<lambda>ev. fst ev \<in> ?B) evs = []"
      by (rule filter_sites_empty [OF finish_retry(6)]) simp
    from assms(4) finish_retry(1,2,6) fs rs have r1: "r1' = r1"
      by (auto dest: not_in_sites [where site = At_first_fast])
    have "filter (\<lambda>ev. fst ev \<in> ?B) (calls S')
        = [(At_first_fast, r1), (At_retry_initial_guess, Status st),
           (At_retry_robust, Status CORRELATION_SUCCESSFUL)]"
      unfolding finish_retry(1) using pre evs fs rs r1 by simp
    moreover from finish_retry(9) have "out \<noteq> Returned (Failed Optimizer)" by auto
    ultimately show ?thesis
      using finish_retry(7,8,9) by blast
  qed
qed

subsection \<open>Passes of the example configurations\<close>

lemmas routine_defs = generic_correlation_routine_def then_do_def motion_gate_def motion_detected_def
  path_setup_def initial_guess_def initial_guess_body_def initialize_by_method_def
  check_initialization_def skip_solve_def initial_gamma_gate_def first_attempt_def
  guarded_update_def second_attempt_def retry_attempt_def finish_def final_quality_def
  final_gamma_gate_def path_distance_gate_def commit_def
  record_failed_step_def record_step_def set_field_def logged_def save_off_fields_def Let_def

lemmas example_defs = example_collaborators_def example_schema_def example_collaborators_no_previous_frame_def

text \<open>
  Claim C3 as it is written fails: with the phase correlation as initialization method and
  a final gamma of 0.01 above the threshold 0.001, the pass ends with the failure status of
  the final gamma gate, and the displacement of the point, 0 before the pass, is 1 after
  it: the offset \<^verbatim>\<open>phase_cor_u_x_\<close> was added at line 1254.
\<close>

theorem failed_pass_moves_displacement_counterexample:
  "fst (generic_correlation_routine example_flag_value example_collaborators
          (example_schema\<lparr>initialization_method := USE_PHASE_CORRELATION,
                           final_gamma_threshold := 1 / 1000\<rparr>))
     = Returned (Failed Final_gamma_gate) \<and>
   local_field_value
     (snd (generic_correlation_routine example_flag_value example_collaborators
             (example_schema\<lparr>initialization_method := USE_PHASE_CORRELATION,
                              final_gamma_threshold := 1 / 1000\<rparr>)))
     0 STATUS_FLAG = real_of_int (example_flag_value FRAME_FAILED_DUE_TO_HIGH_GAMMA) \<and>
   local_field_value
     (example_schema\<lparr>initialization_method := USE_PHASE_CORRELATION,
                      final_gamma_threshold := 1 / 1000\<rparr>) 0 DISPLACEMENT_X = 0 \<and>
   local_field_value
     (snd (generic_correlation_routine example_flag_value example_collaborators
             (example_schema\<lparr>initialization_method := USE_PHASE_CORRELATION,
                              final_gamma_threshold := 1 / 1000\<rparr>)))
     0 DISPLACEMENT_X = 1"
  by (simp add: routine_defs example_defs)

theorem failed_pass_fields_witness:
  "fst (generic_correlation_routine example_flag_value example_collaborators
          (example_schema\<lparr>path_file_names := [0 \<mapsto> ''path.txt''],
                           initial_gamma_threshold := 5 / 100,
                           local_field_value := (\<lambda>g f. 3)\<rparr>))
     = Returned (Failed Init_gamma_gate) \<and>
   local_field_value
     (snd (generic_correlation_routine example_flag_value example_collaborators
             (example_schema\<lparr>path_file_names := [0 \<mapsto> ''path.txt''],
                              initial_gamma_threshold := 5 / 100,
                              local_field_value := (\<lambda>g f. 3)\<rparr>)))
     0 DISPLACEMENT_X = 3 \<and>
   local_field_value
     (snd (generic_correlation_routine example_flag_value example_collaborators
             (example_schema\<lparr>path_file_names := [0 \<mapsto> ''path.txt''],
                              initial_gamma_threshold := 5 / 100,
                              local_field_value := (\<lambda>g f. 3)\<rparr>)))
     0 SIGMA_FIELD = - 1"
proof -
  let ?S = "example_schema\<lparr>path_file_names := [0 \<mapsto> ''path.txt''],
              initial_gamma_threshold := 5 / 100, local_field_value := (\<lambda>g f. 3)\<rparr>"
  let ?R = "generic_correlation_routine example_flag_value example_collaborators ?S"
  have out: "fst ?R = Returned (Failed Init_gamma_gate)"
    by (simp add: routine_defs example_defs)
  then have "?R = (Returned (Failed Init_gamma_gate), snd ?R)"
    by (metis prod.collapse)
  from failed_pass_fields [OF this] out show ?thesis
    by (simp add: example_defs)
qed


text \<open>
  Claim C2. A point with a path file, the method \<^verbatim>\<open>GRADIENT_BASED_THEN_SIMPLEX\<close> and the
  initialization from the field values, and an objective whose
  \<^verbatim>\<open>initialize_from_previous_frame\<close> throws \<^verbatim>\<open>std::logic_error\<close>. The first initial guess
  comes from the path initializer and the fast update does not converge; the initial
  guess is then taken again by \<^verbatim>\<open>initialize_from_previous_frame\<close> at line 1200, outside any
  \<^verbatim>\<open>try\<close> block: the exception leaves the routine and no field of the point is written.
  Without the path file the same call is made at line 1124, inside the \<^verbatim>\<open>try\<close> block of
  lines 1108--1141: there the exception is caught and the status
  \<^verbatim>\<open>INITIALIZE_FAILED_BY_EXCEPTION\<close> is recorded.
\<close>

theorem retry_initial_guess_exception_escapes:
  "fst (generic_correlation_routine example_flag_value example_collaborators_no_previous_frame
          (example_schema\<lparr>path_file_names := [0 \<mapsto> ''path.txt'']\<rparr>))
     = Thrown Logic_error \<and>
   calls (snd (generic_correlation_routine example_flag_value example_collaborators_no_previous_frame
          (example_schema\<lparr>path_file_names := [0 \<mapsto> ''path.txt'']\<rparr>)))
     = [(At_new_path_initializer, Normal), (At_initial_guess, Scalar (10 / 100)),
        (At_first_fast, Status CORRELATION_FAILED),
        (At_retry_initial_guess, Exception Logic_error)] \<and>
   local_field_value
     (snd (generic_correlation_routine example_flag_value example_collaborators_no_previous_frame
             (example_schema\<lparr>path_file_names := [0 \<mapsto> ''path.txt'']\<rparr>)))
     = local_field_value (example_schema\<lparr>path_file_names := [0 \<mapsto> ''path.txt'']\<rparr>) \<and>
   fst (generic_correlation_routine example_flag_value example_collaborators_no_previous_frame
          example_schema)
     = Returned (Failed Init_exception) \<and>
   calls (snd (generic_correlation_routine example_flag_value example_collaborators_no_previous_frame
          example_schema))
     = [(At_initial_guess, Exception Logic_error)] \<and>
   local_field_value
     (snd (generic_correlation_routine example_flag_value example_collaborators_no_previous_frame
             example_schema))
     0 STATUS_FLAG = real_of_int (example_flag_value INITIALIZE_FAILED_BY_EXCEPTION)"
  by (simp add: routine_defs example_defs)

text \<open>
  Claim C5 as it is written fails. With the threshold 0.05 and an initial gamma of 0.10
  from the path initializer, the pass ends at the initial gamma gate with the iteration
  count \<open>-1\<close>, not 0. And where the solve of the point is to be skipped, the pass ends
  before the gate, with the status \<^verbatim>\<open>FRAME_SKIPPED\<close> and the gamma 0.10.
\<close>

theorem initial_gamma_gate_iterations_counterexample:
  "fst (generic_correlation_routine example_flag_value example_collaborators
          (example_schema\<lparr>path_file_names := [0 \<mapsto> ''path.txt''],
                           initial_gamma_threshold := 5 / 100\<rparr>))
     = Returned (Failed Init_gamma_gate) \<and>
   calls (snd (generic_correlation_routine example_flag_value example_collaborators
          (example_schema\<lparr>path_file_names := [0 \<mapsto> ''path.txt''],
                           initial_gamma_threshold := 5 / 100\<rparr>)))
     = [(At_new_path_initializer, Normal), (At_initial_guess, Scalar (10 / 100))] \<and>
   local_field_value
     (snd (generic_correlation_routine example_flag_value example_collaborators
             (example_schema\<lparr>path_file_names := [0 \<mapsto> ''path.txt''],
                              initial_gamma_threshold := 5 / 100\<rparr>)))
     0 ITERATIONS = - 1 \<and>
   fst (generic_correlation_routine example_flag_value example_collaborators
          (example_schema\<lparr>path_file_names := [0 \<mapsto> ''path.txt''],
                           initial_gamma_threshold := 5 / 100,
                           skip_solve_flags := [0 \<mapsto> True]\<rparr>))
     = Returned Skipped_solve \<and>
   local_field_value
     (snd (generic_correlation_routine example_flag_value example_collaborators
             (example_schema\<lparr>path_file_names := [0 \<mapsto> ''path.txt''],
                              initial_gamma_threshold := 5 / 100,
                              skip_solve_flags := [0 \<mapsto> True]\<rparr>)))
     0 STATUS_FLAG = real_of_int (example_flag_value FRAME_SKIPPED) \<and>
   local_field_value
     (snd (generic_correlation_routine example_flag_value example_collaborators
             (example_schema\<lparr>path_file_names := [0 \<mapsto> ''path.txt''],
                              initial_gamma_threshold := 5 / 100,
                              skip_solve_flags := [0 \<mapsto> True]\<rparr>)))
     0 GAMMA = 10 / 100"
  by (simp add: routine_defs example_defs)

theorem initial_gamma_gate_fails_witness:
  "fst (generic_correlation_routine example_flag_value example_collaborators
          (example_schema\<lparr>path_file_names := [0 \<mapsto> ''path.txt''],
                           initial_gamma_threshold := 5 / 100\<rparr>))
     = Returned (Failed Init_gamma_gate) \<and>
   local_field_value
     (snd (generic_correlation_routine example_flag_value example_collaborators
             (example_schema\<lparr>path_file_names := [0 \<mapsto> ''path.txt''],
                              initial_gamma_threshold := 5 / 100\<rparr>)))
     0 STATUS_FLAG = 4 \<and>
   local_field_value
     (snd (generic_correlation_routine example_flag_value example_collaborators
             (example_schema\<lparr>path_file_names := [0 \<mapsto> ''path.txt''],
                              initial_gamma_threshold := 5 / 100\<rparr>)))
     0 GAMMA = - 1"
proof -
  let ?S = "example_schema\<lparr>path_file_names := [0 \<mapsto> ''path.txt''],
              initial_gamma_threshold := 5 / 100\<rparr>"
  let ?R = "generic_correlation_routine example_flag_value example_collaborators ?S"
  have R: "?R = (fst ?R, snd ?R)"
    by simp
  have c: "calls ?S = []" and t: "initial_gamma_threshold ?S = 5 / 100"
    and s: "skip_solve_flags ?S (correlation_point_global_id example_collaborators) \<noteq> Some True"
    by (simp_all add: example_defs)
  have g: "(At_initial_guess, Scalar (10 / 100)) \<in> set (calls (snd ?R))"
    by (simp add: routine_defs example_defs)
  from initial_gamma_gate_fails [OF R c t g s] show ?thesis
    by (simp add: example_defs)
qed

text \<open>
  Claim C4 as it is written fails: the fast update does not converge, the robust update
  of the retry does, and the status recorded at the commit is \<^verbatim>\<open>init_status\<close> (line 1285),
  here \<^verbatim>\<open>INITIALIZE_SUCCESSFUL\<close> from the neighbor, not the status \<^verbatim>\<open>CORRELATION_SUCCESSFUL\<close>
  that the robust update returned.
\<close>

theorem fallback_status_counterexample:
  "fst (generic_correlation_routine example_flag_value example_collaborators
          (example_schema\<lparr>initialization_method := USE_NEIGHBOR_VALUES\<rparr>))
     = Returned Succeeded \<and>
   calls (snd (generic_correlation_routine example_flag_value example_collaborators
          (example_schema\<lparr>initialization_method := USE_NEIGHBOR_VALUES\<rparr>)))
     = [(At_initial_guess, Status INITIALIZE_SUCCESSFUL),
        (At_first_fast, Status CORRELATION_FAILED),
        (At_retry_initial_guess, Status INITIALIZE_SUCCESSFUL),
        (At_retry_robust, Status CORRELATION_SUCCESSFUL),
        (At_gamma, Scalar (1 / 100)), (At_sigma, Scalar (1 / 2))] \<and>
   local_field_value
     (snd (generic_correlation_routine example_flag_value example_collaborators
             (example_schema\<lparr>initialization_method := USE_NEIGHBOR_VALUES\<rparr>)))
     0 STATUS_FLAG = real_of_int (example_flag_value INITIALIZE_SUCCESSFUL) \<and>
   example_flag_value INITIALIZE_SUCCESSFUL \<noteq> example_flag_value CORRELATION_SUCCESSFUL"
  by (simp add: routine_defs example_defs)

theorem fallback_records_retry_status_witness:
  "fst (generic_correlation_routine example_flag_value example_collaborators
          (example_schema\<lparr>initialization_method := USE_PHASE_CORRELATION\<rparr>))
     = Returned Succeeded \<and>
   local_field_value
     (snd (generic_correlation_routine example_flag_value example_collaborators
             (example_schema\<lparr>initialization_method := USE_PHASE_CORRELATION\<rparr>)))
     0 STATUS_FLAG = 3 \<and>
   fst (generic_correlation_routine example_flag_value example_collaborators
          (example_schema\<lparr>initialization_method := USE_PHASE_CORRELATION,
                           final_gamma_threshold := 1 / 1000\<rparr>))
     \<in> {Returned (Failed Final_gamma_gate), Returned (Failed Path_distance_gate)}"
proof -
  let ?S = "example_schema\<lparr>initialization_method := USE_PHASE_CORRELATION\<rparr>"
  let ?R = "generic_correlation_routine example_flag_value example_collaborators ?S"
  let ?T = "example_schema\<lparr>initialization_method := USE_PHASE_CORRELATION,
              final_gamma_threshold := 1 / 1000\<rparr>"
  let ?Q = "generic_correlation_routine example_flag_value example_collaborators ?T"
  have R: "?R = (fst ?R, snd ?R)" and Q: "?Q = (fst ?Q, snd ?Q)"
    by simp_all
  have c: "calls ?S = []" and m: "optimization_method ?S = GRADIENT_BASED_THEN_SIMPLEX"
    and i: "initialization_method ?S = USE_PHASE_CORRELATION"
    and c': "calls ?T = []" and m': "optimization_method ?T = GRADIENT_BASED_THEN_SIMPLEX"
    by (simp_all add: example_defs)
  have ne: "Status CORRELATION_FAILED \<noteq> Status CORRELATION_SUCCESSFUL"
    by simp
  have f: "(At_first_fast, Status CORRELATION_FAILED) \<in> set (calls (snd ?R))"
    and r: "(At_retry_robust, Status CORRELATION_SUCCESSFUL) \<in> set (calls (snd ?R))"
    and out: "fst ?R = Returned Succeeded"
    by (simp_all add: routine_defs example_defs)
  have f': "(At_first_fast, Status CORRELATION_FAILED) \<in> set (calls (snd ?Q))"
    and r': "(At_retry_robust, Status CORRELATION_SUCCESSFUL) \<in> set (calls (snd ?Q))"
    and out': "\<exists>site. fst ?Q = Returned (Failed site)"
    by (simp_all add: routine_defs example_defs)
  from fallback_records_retry_status [OF R c m f ne r] i out
  have "local_field_value (snd ?R) (correlation_point_global_id example_collaborators) STATUS_FLAG
      = real_of_int (example_flag_value INITIALIZE_SUCCESSFUL)"
    by auto
  moreover from fallback_records_retry_status [OF Q c' m' f' ne r'] out'
  have "fst ?Q \<in> {Returned (Failed Final_gamma_gate), Returned (Failed Path_distance_gate)}"
    by auto
  ultimately show ?thesis
    using out by (simp add: example_defs)
qed

end
